theory Spec2Isabelle
  imports Main "HOL-Library.Monad_Syntax"
begin

section \<open>JavaScript strings\<close>

text \<open>
  A JavaScript string is a sequence of UTF-16 code units. A code unit is modelled as a
  natural number (below 65536 for every string the program can hold); the theorems below
  hold for every list of naturals. \<open>js\<close> turns an ASCII literal into such a string.
\<close>

type_synonym jsstring = "nat list"

definition js :: "string \<Rightarrow> jsstring" where
  "js s = map of_char s"

text \<open>
  The characters matched by \<open>\s\<close> in a regular expression and removed by
  \<open>String.prototype.trim\<close>: ECMAScript WhiteSpace and LineTerminator.
\<close>

definition isWhiteSpace :: "nat \<Rightarrow> bool" where
  "isWhiteSpace c \<longleftrightarrow>
     c = 9 \<or> c = 10 \<or> c = 11 \<or> c = 12 \<or> c = 13 \<or> c = 32 \<or> c = 160 \<or> c = 5760 \<or>
     (8192 \<le> c \<and> c \<le> 8202) \<or> c = 8232 \<or> c = 8233 \<or> c = 8239 \<or> c = 8287 \<or>
     c = 12288 \<or> c = 65279"

text \<open>\<open>\d\<close>: the ASCII digits.\<close>

definition isDigit :: "nat \<Rightarrow> bool" where
  "isDigit c \<longleftrightarrow> 48 \<le> c \<and> c \<le> 57"

definition trimStart :: "jsstring \<Rightarrow> jsstring" where
  "trimStart s = dropWhile isWhiteSpace s"

definition trimEnd :: "jsstring \<Rightarrow> jsstring" where
  "trimEnd s = rev (dropWhile isWhiteSpace (rev s))"

definition trim :: "jsstring \<Rightarrow> jsstring" where
  "trim s = trimEnd (trimStart s)"

text \<open>
  \<open>s.substring(a, b)\<close>: the arguments are swapped when \<open>a > b\<close> and clamped to the length.
  \<open>s.substring(a)\<close> is \<open>drop a s\<close>.
\<close>

definition substring :: "jsstring \<Rightarrow> nat \<Rightarrow> nat \<Rightarrow> jsstring" where
  "substring s a b = take (max a b - min a b) (drop (min a b) s)"

definition startsWith :: "jsstring \<Rightarrow> jsstring \<Rightarrow> bool" where
  "startsWith s p \<longleftrightarrow> take (length p) s = p"

text \<open>\<open>s.indexOf(sub)\<close>, with \<open>None\<close> for \<open>-1\<close>, and \<open>s.includes(sub)\<close> (\<open>includes\<close> is an Isabelle keyword).\<close>

fun indexOf :: "jsstring \<Rightarrow> jsstring \<Rightarrow> nat option" where
  "indexOf [] sub = (if sub = [] then Some 0 else None)"
| "indexOf (c # cs) sub =
     (if startsWith (c # cs) sub then Some 0 else map_option Suc (indexOf cs sub))"

definition includes_str :: "jsstring \<Rightarrow> jsstring \<Rightarrow> bool" where
  "includes_str s sub \<longleftrightarrow> indexOf s sub \<noteq> None"

text \<open>
  Replacing every maximal run of characters satisfying \<open>P\<close> by one space:
  \<open>s.replace(/\s+/g, ' ')\<close> and \<open>s.replace(/[ \t]+/g, ' ')\<close>.
\<close>

function collapseRuns :: "(nat \<Rightarrow> bool) \<Rightarrow> jsstring \<Rightarrow> jsstring" where
  "collapseRuns P [] = []"
| "collapseRuns P (c # cs) =
     (if P c then 32 # collapseRuns P (dropWhile P cs) else c # collapseRuns P cs)"
  by pat_completeness auto
termination
  by (relation "measure (\<lambda>(P, s). length s)") (auto simp: length_dropWhile_le less_Suc_eq_le)

definition replaceWsRuns :: "jsstring \<Rightarrow> jsstring" where
  "replaceWsRuns s = collapseRuns isWhiteSpace s"

text \<open>
  The value of a string of decimal digits, and the decimal digits of a number, as a
  template literal prints a non-negative integer. \<open>parseInt(s, 10)\<close> is \<open>digitsValue s\<close>
  as long as that is below \<open>2^53\<close>.
\<close>

definition digitsValue :: "jsstring \<Rightarrow> nat" where
  "digitsValue ds = foldl (\<lambda>a c. 10 * a + (c - 48)) 0 ds"

fun decimal :: "nat \<Rightarrow> jsstring" where
  "decimal n = (if n < 10 then [48 + n] else decimal (n div 10) @ [48 + n mod 10])"

declare decimal.simps [simp del]

text \<open>
  \<open>a || b\<close> on optional strings: \<open>undefined\<close> and the empty string are falsy.
\<close>

definition truthy :: "jsstring option \<Rightarrow> bool" where
  "truthy t \<longleftrightarrow> (case t of None \<Rightarrow> False | Some s \<Rightarrow> s \<noteq> [])"

definition js_or :: "jsstring option \<Rightarrow> jsstring option \<Rightarrow> jsstring option" where
  "js_or a b = (if truthy a then a else b)"

section \<open>Regular expressions\<close>

text \<open>
  Each regular expression of the program is a function that tries to match at the start
  of the string it is given and returns what follows the match (and the captured groups),
  as the backtracking matcher of ECMAScript does. Where a greedy quantifier is followed by
  a character outside its class, giving characters back cannot help and the quantifier is
  \<open>takeWhile\<close>/\<open>dropWhile\<close>; where it can help, the function backtracks.

  With the flag \<open>i\<close> (and without \<open>u\<close>) a pattern letter matches a code unit when both
  have the same canonical form, their upper case; a code unit from 128 on is never
  canonicalised to an ASCII letter. So an ASCII pattern letter matches exactly its own
  two cases.
\<close>

definition upperA :: "nat \<Rightarrow> nat" where
  "upperA c = (if 97 \<le> c \<and> c \<le> 122 then c - 32 else c)"

fun strip_lit :: "jsstring \<Rightarrow> jsstring \<Rightarrow> jsstring option" where
  "strip_lit [] s = Some s"
| "strip_lit (p # ps) [] = None"
| "strip_lit (p # ps) (c # cs) = (if c = p then strip_lit ps cs else None)"

fun strip_ci :: "jsstring \<Rightarrow> jsstring \<Rightarrow> jsstring option" where
  "strip_ci [] s = Some s"
| "strip_ci (p # ps) [] = None"
| "strip_ci (p # ps) (c # cs) = (if upperA c = upperA p then strip_ci ps cs else None)"

text \<open>
  An alternation \<open>A|B\<close>. In every alternation of the program the two branches start
  with different text, so \<open>B\<close> can only match where \<open>A\<close> fails.
\<close>

definition orElse :: "'a option \<Rightarrow> 'a option \<Rightarrow> 'a option" where
  "orElse a b = (case a of Some r \<Rightarrow> Some r | None \<Rightarrow> b)"

text \<open>\<open>\d{n}\<close> and \<open>\d+\<close>, \<open>\s+\<close>: the matched text and the rest.\<close>

definition digitsN :: "nat \<Rightarrow> jsstring \<Rightarrow> (jsstring \<times> jsstring) option" where
  "digitsN n s =
     (if n \<le> length s \<and> list_all isDigit (take n s) then Some (take n s, drop n s) else None)"

definition digits1 :: "jsstring \<Rightarrow> (jsstring \<times> jsstring) option" where
  "digits1 s =
     (if takeWhile isDigit s = [] then None else Some (takeWhile isDigit s, dropWhile isDigit s))"

definition spaces1 :: "jsstring \<Rightarrow> jsstring option" where
  "spaces1 s = (if takeWhile isWhiteSpace s = [] then None else Some (dropWhile isWhiteSpace s))"

definition char1 :: "nat \<Rightarrow> jsstring \<Rightarrow> jsstring option" where
  "char1 p s = (case s of [] \<Rightarrow> None | c # cs \<Rightarrow> if c = p then Some cs else None)"

text \<open>
  \<open>[^x]*x\<close> for a character \<open>x\<close>: everything up to and including the first \<open>x\<close>.
\<close>

definition upTo :: "nat \<Rightarrow> jsstring \<Rightarrow> jsstring option" where
  "upTo x s = (case dropWhile (\<lambda>c. c \<noteq> x) s of [] \<Rightarrow> None | c # rest \<Rightarrow> Some rest)"

text \<open>
  The first match of an unanchored pattern: the leftmost position where the matcher
  succeeds (\<open>String.prototype.match\<close> without the flag \<open>g\<close>).
\<close>

fun search :: "(jsstring \<Rightarrow> 'a option) \<Rightarrow> jsstring \<Rightarrow> 'a option" where
  "search m [] = m []"
| "search m (c # cs) = (case m (c # cs) of Some r \<Rightarrow> Some r | None \<Rightarrow> search m cs)"

text \<open>
  \<open>s.replace(/.../g, ...)\<close>: the matcher yields the replacement and the rest; the scan goes
  on after the match. No pattern of the program matches the empty string, so the rest is
  always shorter than the string matched against and the guard below always holds.
\<close>

function gsub :: "(jsstring \<Rightarrow> (jsstring \<times> jsstring) option) \<Rightarrow> jsstring \<Rightarrow> jsstring" where
  "gsub m [] = []"
| "gsub m (c # cs) =
     (case m (c # cs) of
        None \<Rightarrow> c # gsub m cs
      | Some (rep, rest) \<Rightarrow>
          if length rest \<le> length cs then rep @ gsub m rest else c # gsub m cs)"
  by pat_completeness auto
termination
  by (relation "measure (\<lambda>(m, s). length s)") auto

text \<open>Replacing a pattern without captures by a fixed string.\<close>

definition replaceAll :: "(jsstring \<Rightarrow> jsstring option) \<Rightarrow> jsstring \<Rightarrow> jsstring \<Rightarrow> jsstring" where
  "replaceAll m rep s = gsub (\<lambda>t. map_option (\<lambda>rest. (rep, rest)) (m t)) s"

section \<open>Rate-limited transport (the fetcher: \<open>rateLimitedFetch\<close>, \<open>buildJustelUrl\<close>)\<close>

text \<open>
  An exception value: an \<open>Error\<close> object with its \<open>name\<close> and \<open>message\<close>.
  \<open>error_to_string\<close> is \<open>String(error)\<close>, that is \<open>Error.prototype.toString\<close>.
\<close>

record jserror =
  err_name :: jsstring
  err_message :: jsstring

definition new_Error :: "jsstring \<Rightarrow> jserror" where
  "new_Error msg = \<lparr>err_name = js ''Error'', err_message = msg\<rparr>"

definition error_to_string :: "jserror \<Rightarrow> jsstring" where
  "error_to_string e =
     (if err_name e = [] then err_message e
      else if err_message e = [] then err_name e
      else err_name e @ js '': '' @ err_message e)"

text \<open>
  What one call of the platform's \<open>fetch\<close> does: it rejects, or it resolves to a response
  with a status, whose body is then read (\<open>arrayBuffer\<close> may reject as well).
  \<open>response.ok\<close> is true exactly for the statuses 200 to 299.
\<close>

type_synonym bytes = "nat list"

datatype body_result = BodyRejected jserror | Body bytes

datatype fetch_result = Rejected jserror | Response nat body_result

definition response_ok :: "nat \<Rightarrow> bool" where
  "response_ok status \<longleftrightarrow> 200 \<le> status \<and> status \<le> 299"

text \<open>
  The environment of a run. \<open>net k url\<close> is what the \<open>k\<close>-th request issued by the process
  does: how long it takes (ms) and its result. \<open>timer_lag k\<close> is by how many ms the \<open>k\<close>-th
  timer fires late. \<open>decode\<close> is \<open>new TextDecoder('iso-8859-1').decode\<close>.
  All three belong to the platform and are parameters of the model.
\<close>

record env =
  net :: "nat \<Rightarrow> jsstring \<Rightarrow> nat \<times> fetch_result"
  timer_lag :: "nat \<Rightarrow> nat"
  decode :: "bytes \<Rightarrow> jsstring"

text \<open>
  What the process has done so far. \<open>Request url t\<close>: a request for \<open>url\<close> was initiated
  when the clock showed \<open>t\<close>. \<open>Sleep d\<close>: the caller was suspended by
  \<open>setTimeout(resolve, d)\<close>. Advisory logging is left out.
\<close>

datatype event = Request jsstring int | Sleep int

record world =
  clock :: int
  lastRequestTime :: int
  requests :: nat
  timers :: nat
  trace :: "event list"

definition RATE_LIMIT_MS :: int where
  "RATE_LIMIT_MS = 500"

definition maxRetries :: nat where
  "maxRetries = 3"

definition BASE_URL :: jsstring where
  "BASE_URL = js ''http://www.ejustice.just.fgov.be''"

text \<open>
  \<open>await new Promise(resolve => setTimeout(resolve, d))\<close>. Node sets a delay below 1 or
  above 2147483647 to 1. The timer never fires early.
\<close>

definition timeout_ms :: "int \<Rightarrow> int" where
  "timeout_ms d = (if d < 1 \<or> 2147483647 < d then 1 else d)"

definition sleep :: "env \<Rightarrow> int \<Rightarrow> world \<Rightarrow> world" where
  "sleep ev d w =
     w\<lparr>clock := clock w + timeout_ms d + int (timer_lag ev (timers w)),
       timers := timers w + 1,
       trace := trace w @ [Sleep d]\<rparr>"

text \<open>\<open>await fetch(url, ...)\<close> followed by reading the body.\<close>

definition do_fetch :: "env \<Rightarrow> jsstring \<Rightarrow> world \<Rightarrow> fetch_result \<times> world" where
  "do_fetch ev url w =
     (let (duration, res) = net ev (requests w) url
      in (res, w\<lparr>clock := clock w + int duration,
                 requests := requests w + 1,
                 trace := trace w @ [Request url (clock w)]\<rparr>))"

text \<open>The body of the \<open>try\<close> block: the decoded text, or the exception it throws.\<close>

definition attempt_try :: "env \<Rightarrow> jsstring \<Rightarrow> fetch_result \<Rightarrow> jserror + jsstring" where
  "attempt_try ev url res =
     (case res of
        Rejected e \<Rightarrow> Inl e
      | Response status body \<Rightarrow>
          if \<not> response_ok status
          then Inl (new_Error (js ''HTTP '' @ decimal status @ js '' for '' @ url))
          else (case body of BodyRejected e \<Rightarrow> Inl e | Body buffer \<Rightarrow> Inr (decode ev buffer)))"

text \<open>
  The loop \<open>for (let attempt = 1; attempt <= maxRetries; attempt++)\<close>; the last equation's
  \<open>else\<close> is the \<open>throw\<close> after the loop.
\<close>

function attempt_loop ::
  "env \<Rightarrow> jsstring \<Rightarrow> nat \<Rightarrow> world \<Rightarrow> (jserror + jsstring) \<times> world" where
  "attempt_loop ev url attempt w =
     (if attempt \<le> maxRetries then
        (let (res, w') = do_fetch ev url w in
         case attempt_try ev url res of
           Inr text \<Rightarrow> (Inr text, w')
         | Inl error \<Rightarrow>
             if attempt = maxRetries then (Inl error, w')
             else attempt_loop ev url (attempt + 1) (sleep ev (int attempt * 1000) w'))
      else (Inl (new_Error (js ''Failed to fetch '' @ url)), w))"
  by pat_completeness auto
termination
  by (relation "measure (\<lambda>(ev, url, attempt, w). maxRetries + 1 - attempt)") auto

declare attempt_loop.simps [simp del]

text \<open>The rate limiter in front of the loop (the first lines of \<open>rateLimitedFetch\<close>).\<close>

definition limiter :: "env \<Rightarrow> world \<Rightarrow> world" where
  "limiter ev w =
     (let now = clock w;
          elapsed = now - lastRequestTime w;
          w1 = (if elapsed < RATE_LIMIT_MS then sleep ev (RATE_LIMIT_MS - elapsed) w else w)
      in w1\<lparr>lastRequestTime := clock w1\<rparr>)"

definition rateLimitedFetch ::
  "env \<Rightarrow> jsstring \<Rightarrow> world \<Rightarrow> (jserror + jsstring) \<times> world" where
  "rateLimitedFetch ev url w = attempt_loop ev url 1 (limiter ev w)"

datatype lang = fr | nl

definition pathSegment :: "lang \<Rightarrow> jsstring" where
  "pathSegment l = (case l of fr \<Rightarrow> js ''loi'' | nl \<Rightarrow> js ''wet'')"

definition buildJustelUrl :: "nat \<Rightarrow> jsstring \<Rightarrow> jsstring \<Rightarrow> jsstring \<Rightarrow> lang \<Rightarrow> jsstring" where
  "buildJustelUrl year month day numac l =
     BASE_URL @ js ''/eli/'' @ pathSegment l @ js ''/'' @ decimal year @ js ''/'' @ month
       @ js ''/'' @ day @ js ''/'' @ numac @ js ''/justel''"

definition fetchLawContent ::
  "env \<Rightarrow> nat \<Rightarrow> jsstring \<Rightarrow> jsstring \<Rightarrow> jsstring \<Rightarrow> lang \<Rightarrow> world
     \<Rightarrow> (jserror + jsstring) \<times> world" where
  "fetchLawContent ev year month day numac l w =
     rateLimitedFetch ev
       (BASE_URL @ js ''/eli/'' @ pathSegment l @ js ''/'' @ decimal year @ js ''/'' @ month
          @ js ''/'' @ day @ js ''/'' @ numac @ js ''/justel'') w"

definition fetchYearIndex :: "env \<Rightarrow> nat \<Rightarrow> lang \<Rightarrow> world \<Rightarrow> (jserror + jsstring) \<times> world" where
  "fetchYearIndex ev year l w =
     rateLimitedFetch ev (BASE_URL @ js ''/eli/'' @ pathSegment l @ js ''/'' @ decimal year) w"

text \<open>The events a call added to the trace, and the initiation times of its requests.\<close>

definition call_events :: "world \<Rightarrow> world \<Rightarrow> event list" where
  "call_events w w' = drop (length (trace w)) (trace w')"

fun request_times :: "event list \<Rightarrow> int list" where
  "request_times [] = []"
| "request_times (Request url t # es) = t # request_times es"
| "request_times (Sleep d # es) = request_times es"

text \<open>
  \<open>attempt_outcome ev url w k\<close>: what the \<open>try\<close> block yields for the request number
  \<open>requests w + k\<close>, the \<open>(k+1)\<close>-th attempt of a call started in \<open>w\<close>.
\<close>

definition attempt_outcome :: "env \<Rightarrow> jsstring \<Rightarrow> world \<Rightarrow> nat \<Rightarrow> jserror + jsstring" where
  "attempt_outcome ev url w k = attempt_try ev url (snd (net ev (requests w + k) url))"

fun untimed :: "event list \<Rightarrow> event list" where
  "untimed [] = []"
| "untimed (Request url t # es) = Request url 0 # untimed es"
| "untimed (Sleep d # es) = Sleep d # untimed es"

text \<open>Every two consecutive initiation times are at least \<open>RATE_LIMIT_MS\<close> apart.\<close>

fun spaced :: "int list \<Rightarrow> bool" where
  "spaced [] = True"
| "spaced [t] = True"
| "spaced (t # u # ts) = (RATE_LIMIT_MS \<le> u - t \<and> spaced (u # ts))"

section \<open>Document and index extractors (the parser: \<open>parseArticles\<close>, \<open>parseYearIndex\<close>)\<close>

subsection \<open>Markup cleaning\<close>

text \<open>\<open>/<A[^>]*>/gi\<close>\<close>

definition re_anchor_open :: "jsstring \<Rightarrow> jsstring option" where
  "re_anchor_open s = do { s1 \<leftarrow> strip_ci (js ''<A'') s; upTo 62 s1 }"

text \<open>\<open>/<\/A>/gi\<close>\<close>

definition re_anchor_close :: "jsstring \<Rightarrow> jsstring option" where
  "re_anchor_close s = strip_ci (js ''</A>'') s"

text \<open>
  \<open>/<BR\s*\/?>/gi\<close>. Neither \<open>/\<close> nor \<open>>\<close> is whitespace, so \<open>\s*\<close> takes the whole
  run; when the optional \<open>/\<close> is present and no \<open>>\<close> follows it, leaving it out does
  not help either.
\<close>

definition re_br :: "jsstring \<Rightarrow> jsstring option" where
  "re_br s = do {
     s1 \<leftarrow> strip_ci (js ''<BR'') s;
     let s2 = dropWhile isWhiteSpace s1;
     let s3 = (case char1 47 s2 of Some t \<Rightarrow> t | None \<Rightarrow> s2);
     char1 62 s3 }"

text \<open>\<open>/<\/?h[1-6][^>]*>/gi\<close>\<close>

definition re_heading :: "jsstring \<Rightarrow> jsstring option" where
  "re_heading s = do {
     s1 \<leftarrow> char1 60 s;
     let s2 = (case char1 47 s1 of Some t \<Rightarrow> t | None \<Rightarrow> s1);
     s3 \<leftarrow> strip_ci (js ''h'') s2;
     s4 \<leftarrow> (case s3 of [] \<Rightarrow> None | c # t \<Rightarrow> if 49 \<le> c \<and> c \<le> 54 then Some t else None);
     upTo 62 s4 }"

text \<open>\<open>/<[^>]+>/g\<close>: at least one character stands between the brackets.\<close>

definition re_tag :: "jsstring \<Rightarrow> jsstring option" where
  "re_tag s = do {
     s1 \<leftarrow> char1 60 s;
     if takeWhile (\<lambda>c. c \<noteq> 62) s1 = [] then None else upTo 62 s1 }"

text \<open>
  \<open>parseInt(digits, 10)\<close> is the Number nearest to \<open>digitsValue\<close> (round to nearest,
  ties to even, on 53 bits; \<open>None\<close> stands for \<open>Infinity\<close>), and
  \<open>String.fromCharCode\<close> keeps its argument modulo \<open>2^16\<close>, \<open>Infinity\<close> giving 0.
\<close>

fun bitlen :: "nat \<Rightarrow> nat" where
  "bitlen n = (if n = 0 then 0 else Suc (bitlen (n div 2)))"

declare bitlen.simps [simp del]

definition toDouble :: "nat \<Rightarrow> nat option" where
  "toDouble n =
     (if n < 2 ^ 53 then Some n
      else let e = bitlen n - 53; q = n div 2 ^ e; r = n mod 2 ^ e; h = 2 ^ (e - 1);
               q' = (if h < r \<or> (r = h \<and> odd q) then q + 1 else q)
           in if 2 ^ 1024 \<le> q' * 2 ^ e then None else Some (q' * 2 ^ e))"

definition fromCharCode :: "nat option \<Rightarrow> jsstring" where
  "fromCharCode v = (case v of None \<Rightarrow> [0] | Some n \<Rightarrow> [n mod 65536])"

text \<open>
  \<open>/&#\d+;/g\<close> with the callback \<open>m => String.fromCharCode(parseInt(m.slice(2, -1), 10))\<close>:
  the replacement and the rest.
\<close>

definition re_numeric_entity :: "jsstring \<Rightarrow> (jsstring \<times> jsstring) option" where
  "re_numeric_entity s = do {
     s1 \<leftarrow> strip_lit (js ''&#'') s;
     (ds, s2) \<leftarrow> digits1 s1;
     s3 \<leftarrow> char1 59 s2;
     Some (fromCharCode (toDouble (digitsValue ds)), s3) }"

text \<open>\<open>text.replace(/&name;/g, replacement)\<close> for a literal entity.\<close>

definition replaceEntity :: "jsstring \<Rightarrow> jsstring \<Rightarrow> jsstring \<Rightarrow> jsstring" where
  "replaceEntity entity rep s = replaceAll (strip_lit entity) rep s"

definition decodeEntities :: "jsstring \<Rightarrow> jsstring" where
  "decodeEntities t0 =
     (let t1 = replaceEntity (js ''&nbsp;'') (js '' '') t0;
          t2 = replaceEntity (js ''&amp;'') (js ''&'') t1;
          t3 = replaceEntity (js ''&lt;'') (js ''<'') t2;
          t4 = replaceEntity (js ''&gt;'') (js ''>'') t3;
          t5 = replaceEntity (js ''&quot;'') [34] t4;
          t6 = replaceEntity (js ''&eacute;'') [233] t5;
          t7 = replaceEntity (js ''&egrave;'') [232] t6;
          t8 = replaceEntity (js ''&agrave;'') [224] t7;
          t9 = replaceEntity (js ''&acirc;'') [226] t8;
          t10 = replaceEntity (js ''&ecirc;'') [234] t9;
          t11 = replaceEntity (js ''&icirc;'') [238] t10;
          t12 = replaceEntity (js ''&ocirc;'') [244] t11;
          t13 = replaceEntity (js ''&ucirc;'') [251] t12;
          t14 = replaceEntity (js ''&ugrave;'') [249] t13;
          t15 = replaceEntity (js ''&ccedil;'') [231] t14;
          t16 = replaceEntity (js ''&laquo;'') [171] t15;
          t17 = replaceEntity (js ''&raquo;'') [187] t16
      in gsub re_numeric_entity t17)"

text \<open>The tag-removing replacements, in the order of the source.\<close>

definition stripTags :: "jsstring \<Rightarrow> jsstring" where
  "stripTags t0 =
     (let t1 = replaceAll re_anchor_open [] t0;
          t2 = replaceAll re_anchor_close [] t1;
          t3 = replaceAll re_br [10] t2;
          t4 = replaceAll re_heading [] t3
      in replaceAll re_tag [] t4)"

text \<open>
  \<open>/\n\s*\n/g\<close>. A line feed is whitespace itself, so \<open>\s*\<close> first runs over every
  whitespace character and then gives characters back until a line feed can be matched:
  the match ends at the last line feed of the whitespace run.
\<close>

fun ws_then_newline :: "jsstring \<Rightarrow> jsstring option" where
  "ws_then_newline [] = None"
| "ws_then_newline (c # cs) =
     (if isWhiteSpace c
      then orElse (ws_then_newline cs) (char1 10 (c # cs))
      else char1 10 (c # cs))"

definition re_blank_lines :: "jsstring \<Rightarrow> jsstring option" where
  "re_blank_lines s = do { s1 \<leftarrow> char1 10 s; ws_then_newline s1 }"

definition isBlank :: "nat \<Rightarrow> bool" where
  "isBlank c \<longleftrightarrow> c = 32 \<or> c = 9"

text \<open>\<open>text.split('\n')\<close> and \<open>lines.join('\n')\<close>.\<close>

fun splitLines :: "jsstring \<Rightarrow> jsstring list" where
  "splitLines [] = [[]]"
| "splitLines (c # cs) =
     (if c = 10 then [] # splitLines cs
      else (case splitLines cs of line # lines \<Rightarrow> (c # line) # lines | [] \<Rightarrow> [[c]]))"

fun joinLines :: "jsstring list \<Rightarrow> jsstring" where
  "joinLines [] = []"
| "joinLines [l] = l"
| "joinLines (l # m # ls) = l @ 10 # joinLines (m # ls)"

text \<open>
  The last three statements of \<open>cleanArticleHtml\<close>: collapse blanks, collapse blank lines,
  trim each line and drop the empty ones.
\<close>

definition normalizeLines :: "jsstring \<Rightarrow> jsstring" where
  "normalizeLines t0 =
     (let t1 = collapseRuns isBlank t0;
          t2 = replaceAll re_blank_lines [10] t1
      in joinLines (filter (\<lambda>line. line \<noteq> []) (map trim (splitLines t2))))"

definition cleanArticleHtml :: "jsstring \<Rightarrow> jsstring" where
  "cleanArticleHtml html = normalizeLines (decodeEntities (stripTags html))"

subsection \<open>Article splitter\<close>

text \<open>
  \<open>interface ParsedProvision\<close>; \<open>chapter\<close> is optional, \<open>None\<close> is \<open>undefined\<close>.
\<close>

record ParsedProvision =
  p_provision_ref :: jsstring
  p_section :: jsstring
  p_title :: jsstring
  p_content :: jsstring
  p_chapter :: "jsstring option"

text \<open>
  \<open>/<A\s+NAME='Art\.([^']+)'[^>]*>/gi\<close>: the captured reference and the rest. The
  character after each greedy run is outside the run's class.
\<close>

definition re_articlePattern :: "jsstring \<Rightarrow> (jsstring \<times> jsstring) option" where
  "re_articlePattern s = do {
     s1 \<leftarrow> strip_ci (js ''<A'') s;
     s2 \<leftarrow> spaces1 s1;
     s3 \<leftarrow> strip_ci (js ''NAME='Art.'') s2;
     let ref = takeWhile (\<lambda>c. c \<noteq> 39) s3;
     if ref = [] then None else do {
       s4 \<leftarrow> char1 39 (dropWhile (\<lambda>c. c \<noteq> 39) s3);
       s5 \<leftarrow> upTo 62 s4;
       Some (ref, s5) } }"

text \<open>
  The loop \<open>while ((match = articlePattern.exec(html)) !== null)\<close>: every match with its
  offset; after a match the search resumes behind it. The guard always holds, since a
  match is not empty.
\<close>

function articleMatches :: "nat \<Rightarrow> jsstring \<Rightarrow> (jsstring \<times> nat) list" where
  "articleMatches i [] = []"
| "articleMatches i (c # cs) =
     (case re_articlePattern (c # cs) of
        None \<Rightarrow> articleMatches (i + 1) cs
      | Some (ref, rest) \<Rightarrow>
          if length rest \<le> length cs
          then (ref, i) # articleMatches (i + (length (c # cs) - length rest)) rest
          else articleMatches (i + 1) cs)"
  by pat_completeness auto
termination
  by (relation "measure (\<lambda>(i, s). length s)") auto

text \<open>
  \<open>/(?:CHAPITRE|HOOFDSTUK)\s+([IVXLCDM\d]+(?:er)?)\.\s*-\s*([^<\n]+)/i\<close>. The last two
  pieces need backtracking: \<open>\s*\<close> runs over the whitespace after the dash and gives
  characters back until group 2 finds a character other than \<open><\<close> and line feed to
  start with.
\<close>

definition isChapterNumeral :: "nat \<Rightarrow> bool" where
  "isChapterNumeral c \<longleftrightarrow> upperA c \<in> set (js ''IVXLCDM'') \<or> isDigit c"

definition chapterTitle :: "jsstring \<Rightarrow> jsstring option" where
  "chapterTitle s =
     (if takeWhile (\<lambda>c. c \<noteq> 60 \<and> c \<noteq> 10) s = [] then None
      else Some (takeWhile (\<lambda>c. c \<noteq> 60 \<and> c \<noteq> 10) s))"

fun ws_then_chapterTitle :: "jsstring \<Rightarrow> jsstring option" where
  "ws_then_chapterTitle [] = None"
| "ws_then_chapterTitle (c # cs) =
     (if isWhiteSpace c
      then orElse (ws_then_chapterTitle cs) (chapterTitle (c # cs))
      else chapterTitle (c # cs))"

definition re_chapter :: "jsstring \<Rightarrow> (jsstring \<times> jsstring) option" where
  "re_chapter s = do {
     s1 \<leftarrow> orElse (strip_ci (js ''CHAPITRE'') s) (strip_ci (js ''HOOFDSTUK'') s);
     s2 \<leftarrow> spaces1 s1;
     let num = takeWhile isChapterNumeral s2;
     let s3 = dropWhile isChapterNumeral s2;
     if num = [] then None else do {
       let er = (case strip_ci (js ''er'') s3 of Some t \<Rightarrow> take 2 s3 | None \<Rightarrow> []);
       s4 \<leftarrow> char1 46 (drop (length er) s3);
       s5 \<leftarrow> char1 45 (dropWhile isWhiteSpace s4);
       t \<leftarrow> ws_then_chapterTitle s5;
       Some (num @ er, t) } }"

text \<open>
  \<open>`${chapterMatch[1]}. ${chapterMatch[2].trim()}`\<close> when the fragment holds a chapter
  heading, the chapter carried so far otherwise.
\<close>

definition updateChapter :: "jsstring \<Rightarrow> jsstring option \<Rightarrow> jsstring option" where
  "updateChapter fragment currentChapter =
     (case search re_chapter fragment of
        Some (num, t) \<Rightarrow> Some (num @ js ''. '' @ trim t)
      | None \<Rightarrow> currentChapter)"

text \<open>\<open>s.replace(/er$/i, '')\<close>\<close>

definition stripEr :: "jsstring \<Rightarrow> jsstring" where
  "stripEr s =
     (if 2 \<le> length s \<and> strip_ci (js ''er'') (drop (length s - 2) s) = Some []
      then take (length s - 2) s else s)"

text \<open>
  \<open>String.prototype.toLowerCase\<close> follows the Unicode tables of the platform; it is a
  parameter of the splitter. \<open>asciiLower\<close> is what it does on ASCII text.
\<close>

definition asciiLower :: "jsstring \<Rightarrow> jsstring" where
  "asciiLower s = map (\<lambda>c. if 65 \<le> c \<and> c \<le> 90 then c + 32 else c) s"

text \<open>
  \<open>parseArticlesFallback\<close>. \<open>re_article_head\<close> is \<open>(?:Article|Art\.)\s+\<close> followed by a
  digit, and returns the text from the digits on.
  \<open>cleanText.split(/(?=(?:Article|Art\.)\s+\d+)/i)\<close> cuts before every position but the
  first where the lookahead matches.
\<close>

definition re_article_head :: "jsstring \<Rightarrow> jsstring option" where
  "re_article_head s = do {
     s1 \<leftarrow> orElse (strip_ci (js ''Article'') s) (strip_ci (js ''Art.'') s);
     s2 \<leftarrow> spaces1 s1;
     (ds, s3) \<leftarrow> digits1 s2;
     Some s2 }"

fun splitAtHeads :: "jsstring \<Rightarrow> jsstring list" where
  "splitAtHeads [] = [[]]"
| "splitAtHeads (c # cs) =
     (if re_article_head cs \<noteq> None then [c] # splitAtHeads cs
      else (case splitAtHeads cs of part # parts \<Rightarrow> (c # part) # parts | [] \<Rightarrow> [[c]]))"

text \<open>
  Group 1 of \<open>/^(?:Article|Art\.)\s+(\d+(?:er)?)/i\<close> on a part.
\<close>

definition articleNumber :: "jsstring \<Rightarrow> jsstring option" where
  "articleNumber part = do {
     s2 \<leftarrow> re_article_head part;
     let ds = takeWhile isDigit s2;
     let s3 = dropWhile isDigit s2;
     Some (ds @ (case strip_ci (js ''er'') s3 of Some t \<Rightarrow> take 2 s3 | None \<Rightarrow> [])) }"

fun fallbackParts :: "(jsstring \<Rightarrow> jsstring) \<Rightarrow> jsstring list \<Rightarrow> ParsedProvision list" where
  "fallbackParts toLowerCase [] = []"
| "fallbackParts toLowerCase (part # parts) =
     (case articleNumber part of
        None \<Rightarrow> fallbackParts toLowerCase parts
      | Some num \<Rightarrow>
          \<lparr>p_provision_ref = js ''art'' @ toLowerCase num,
           p_section = stripEr num,
           p_title = js ''Article '' @ num,
           p_content = trim part,
           p_chapter = None\<rparr> # fallbackParts toLowerCase parts)"

definition parseArticlesFallback :: "(jsstring \<Rightarrow> jsstring) \<Rightarrow> jsstring \<Rightarrow> ParsedProvision list" where
  "parseArticlesFallback toLowerCase html =
     fallbackParts toLowerCase (splitAtHeads (cleanArticleHtml html))"

text \<open>
  The loop \<open>for (let i = 0; i < matches.length; i++)\<close> of \<open>parseArticles\<close>, run over the
  matches still to come: \<open>prevStart\<close> is \<open>matches[i - 1].startIndex\<close> (0 for the first
  match) and \<open>currentChapter\<close> the variable carried from article to article.
\<close>

fun articlesLoop ::
  "(jsstring \<Rightarrow> jsstring) \<Rightarrow> jsstring \<Rightarrow> nat \<Rightarrow> jsstring option \<Rightarrow> (jsstring \<times> nat) list
     \<Rightarrow> ParsedProvision list" where
  "articlesLoop toLowerCase html prevStart currentChapter [] = []"
| "articlesLoop toLowerCase html prevStart currentChapter ((displayRef, startIndex) # ms) =
     (let nextStart = (case ms of [] \<Rightarrow> length html | (r, nextIndex) # later \<Rightarrow> nextIndex);
          articleHtml = substring html startIndex nextStart;
          chapterBefore = substring html prevStart startIndex;
          chapter1 = updateChapter chapterBefore currentChapter;
          chapter2 = updateChapter articleHtml chapter1;
          text = cleanArticleHtml articleHtml
      in if trim text = [] then articlesLoop toLowerCase html startIndex chapter2 ms
         else \<lparr>p_provision_ref = js ''art'' @ filter (\<lambda>c. c \<noteq> 46) (toLowerCase displayRef),
               p_section = stripEr displayRef,
               p_title = (if displayRef = js ''1er'' \<or> displayRef = js ''1ER''
                          then js ''Article 1er'' else js ''Article '' @ displayRef),
               p_content = trim text,
               p_chapter = chapter2\<rparr>
              # articlesLoop toLowerCase html startIndex chapter2 ms)"

definition parseArticles :: "(jsstring \<Rightarrow> jsstring) \<Rightarrow> jsstring \<Rightarrow> ParsedProvision list" where
  "parseArticles toLowerCase html =
     (let matches = articleMatches 0 html
      in if matches = [] then parseArticlesFallback toLowerCase html
         else articlesLoop toLowerCase html 0 None matches)"

subsection \<open>Index extractor\<close>

text \<open>\<open>interface LawIndexEntry\<close> (the fields carry the prefix \<open>e_\<close>).\<close>

record LawIndexEntry =
  e_index :: nat
  e_title :: jsstring
  e_date :: jsstring
  e_year :: nat
  e_month :: jsstring
  e_day :: jsstring
  e_numac :: jsstring
  e_justelUrl :: jsstring
  e_source :: jsstring
  e_publicationDate :: jsstring

text \<open>
  The page is parsed by jsdom, which is taken as given. An element of
  \<open>document.querySelectorAll('a[href]')\<close> is represented by what the extractor reads from
  it: its \<open>href\<close> attribute and, when a \<open>tr\<close> encloses it (\<open>link.closest('tr')\<close>), the
  \<open>textContent\<close> of each element of \<open>tr.querySelectorAll('td')\<close>, in document order.
\<close>

record anchor =
  href :: jsstring
  row_cells :: "jsstring list option"

text \<open>
  \<open>/\/eli\/(?:loi|wet)\/(\d{4})\/(\d{2})\/(\d{2})\/(\d+)\/justel/\<close>: the four groups and the
  rest. \<open>urlMatch\<close> is \<open>href.match(...)\<close>, the leftmost match.
\<close>

definition re_justel_url ::
  "jsstring \<Rightarrow> ((jsstring \<times> jsstring \<times> jsstring \<times> jsstring) \<times> jsstring) option" where
  "re_justel_url s = do {
     s1 \<leftarrow> strip_lit (js ''/eli/'') s;
     s2 \<leftarrow> orElse (strip_lit (js ''loi'') s1) (strip_lit (js ''wet'') s1);
     s3 \<leftarrow> char1 47 s2;
     (yearStr, s4) \<leftarrow> digitsN 4 s3;
     s5 \<leftarrow> char1 47 s4;
     (month, s6) \<leftarrow> digitsN 2 s5;
     s7 \<leftarrow> char1 47 s6;
     (day, s8) \<leftarrow> digitsN 2 s7;
     s9 \<leftarrow> char1 47 s8;
     (numac, s10) \<leftarrow> digits1 s9;
     s11 \<leftarrow> strip_lit (js ''/justel'') s10;
     Some ((yearStr, month, day, numac), s11) }"

definition urlMatch :: "jsstring \<Rightarrow> (jsstring \<times> jsstring \<times> jsstring \<times> jsstring) option" where
  "urlMatch h = map_option fst (search re_justel_url h)"

text \<open>The test of the first loop, which collects \<open>justelLinks\<close>.\<close>

definition isJustelLink :: "anchor \<Rightarrow> bool" where
  "isJustelLink link \<longleftrightarrow>
     includes_str (href link) (js ''/justel'') \<and>
     (includes_str (href link) (js ''/eli/loi/'') \<or> includes_str (href link) (js ''/eli/wet/''))"

definition pubMarker :: "lang \<Rightarrow> jsstring" where
  "pubMarker l = (case l of fr \<Rightarrow> js ''Publi'' @ [233] @ js '' le'' | nl \<Rightarrow> js ''Gepubliceerd op'')"

definition sourceMarker :: "lang \<Rightarrow> jsstring" where
  "sourceMarker l = (case l of fr \<Rightarrow> js ''Source :'' | nl \<Rightarrow> js ''Bron :'')"

text \<open>
  \<open>title.replace(/\(\d+\)\s*$/, '')\<close>. \<open>re_footnote s\<close>: the pattern matches at the start of
  \<open>s\<close> and reaches its end. The leftmost such position is where the title is cut.
\<close>

definition re_footnote :: "jsstring \<Rightarrow> bool" where
  "re_footnote s =
     (case do { s1 \<leftarrow> char1 40 s; (ds, s2) \<leftarrow> digits1 s1; char1 41 s2 } of
        None \<Rightarrow> False
      | Some s3 \<Rightarrow> list_all isWhiteSpace s3)"

fun stripFootnote :: "jsstring \<Rightarrow> jsstring" where
  "stripFootnote [] = []"
| "stripFootnote (c # cs) = (if re_footnote (c # cs) then [] else c # stripFootnote cs)"

definition extractTitle :: "lang \<Rightarrow> jsstring \<Rightarrow> jsstring" where
  "extractTitle l fullText =
     (let title = (case indexOf fullText (pubMarker l) of
                     Some pubIndex \<Rightarrow>
                       if pubIndex > 0 then trim (substring fullText 0 pubIndex)
                       else trim fullText
                   | None \<Rightarrow> trim fullText)
      in trim (stripFootnote (replaceWsRuns title)))"

definition extractSource :: "lang \<Rightarrow> jsstring \<Rightarrow> jsstring" where
  "extractSource l fullText =
     (case indexOf fullText (sourceMarker l) of
        None \<Rightarrow> []
      | Some sourceIdx \<Rightarrow>
          (let afterSource = trim (drop (sourceIdx + length (sourceMarker l)) fullText)
           in case indexOf afterSource [10] of
                Some lineEnd \<Rightarrow>
                  if lineEnd > 0 then trim (substring afterSource 0 lineEnd)
                  else trim afterSource
              | None \<Rightarrow> trim afterSource))"

text \<open>\<open>/(\d{2}-\d{2}-\d{4})/\<close>\<close>

definition re_pubDate :: "jsstring \<Rightarrow> jsstring option" where
  "re_pubDate s = do {
     (dd, s1) \<leftarrow> digitsN 2 s;
     s2 \<leftarrow> char1 45 s1;
     (mm, s3) \<leftarrow> digitsN 2 s2;
     s4 \<leftarrow> char1 45 s3;
     (yyyy, s5) \<leftarrow> digitsN 4 s4;
     Some (dd @ [45] @ mm @ [45] @ yyyy) }"

definition extractPublicationDate :: "jsstring \<Rightarrow> jsstring" where
  "extractPublicationDate fullText =
     (case search re_pubDate fullText of Some d \<Rightarrow> d | None \<Rightarrow> [])"

definition isGermanTranslation :: "jsstring \<Rightarrow> bool" where
  "isGermanTranslation title \<longleftrightarrow>
     includes_str title (js ''Traduction allemande'') \<or> includes_str title (js ''Duitse vertaling'')"

text \<open>
  The body of the second loop for one link, \<open>n\<close> being \<open>entries.length\<close>: the entry pushed,
  or \<open>None\<close> when the body ends in \<open>continue\<close>. Nothing in the body throws.
\<close>

definition parseEntry :: "lang \<Rightarrow> nat \<Rightarrow> anchor \<Rightarrow> LawIndexEntry option" where
  "parseEntry l n link =
     (case urlMatch (href link) of
        None \<Rightarrow> None
      | Some (yearStr, month, day, numac) \<Rightarrow>
          (case row_cells link of
             None \<Rightarrow> None
           | Some tds \<Rightarrow>
               (let fullText = (if 2 \<le> length tds then tds ! 1 else []);
                    title = (if 2 \<le> length tds then extractTitle l fullText else []);
                    source = (if 2 \<le> length tds then extractSource l fullText else []);
                    publicationDate =
                      (if 2 \<le> length tds then extractPublicationDate fullText else []);
                    fullUrl = (if startsWith (href link) (js ''http'') then trim (href link)
                               else trim (js ''http://www.ejustice.just.fgov.be'' @ href link))
                in if isGermanTranslation title then None
                   else Some \<lparr>e_index = n + 1,
                              e_title = title,
                              e_date = decimal (digitsValue yearStr) @ [45] @ month @ [45] @ day,
                              e_year = digitsValue yearStr,
                              e_month = month,
                              e_day = day,
                              e_numac = numac,
                              e_justelUrl = fullUrl,
                              e_source = source,
                              e_publicationDate = publicationDate\<rparr>)))"

fun parseLoop :: "lang \<Rightarrow> LawIndexEntry list \<Rightarrow> anchor list \<Rightarrow> LawIndexEntry list" where
  "parseLoop l entries [] = entries"
| "parseLoop l entries (link # links) =
     (case parseEntry l (length entries) link of
        None \<Rightarrow> parseLoop l entries links
      | Some entry \<Rightarrow> parseLoop l (entries @ [entry]) links)"

definition parseYearIndex :: "anchor list \<Rightarrow> lang \<Rightarrow> LawIndexEntry list" where
  "parseYearIndex allLinks l = parseLoop l [] (filter isJustelLink allLinks)"

text \<open>
  The canonical content URL of a law: the fixed host, \<open>/eli/\<close>, the language segment, the
  four-digit year, the two-digit month and day, the identifier and \<open>/justel\<close>.
\<close>

definition canonicalUrl :: "lang \<Rightarrow> jsstring \<Rightarrow> jsstring \<Rightarrow> jsstring \<Rightarrow> jsstring \<Rightarrow> jsstring" where
  "canonicalUrl l yyyy mm dd numac =
     BASE_URL @ js ''/eli/'' @ pathSegment l @ js ''/'' @ yyyy @ js ''/'' @ mm @ js ''/'' @ dd
       @ js ''/'' @ numac @ js ''/justel''"

text \<open>
  The round trip of a URL: decomposed with the extractor's pattern, rebuilt with
  \<open>buildJustelUrl\<close> for the language \<open>l\<close>.
\<close>

definition rebuildUrl :: "lang \<Rightarrow> jsstring \<Rightarrow> jsstring option" where
  "rebuildUrl l url =
     (case urlMatch url of
        None \<Rightarrow> None
      | Some (yearStr, month, day, numac) \<Rightarrow>
          Some (buildJustelUrl (digitsValue yearStr) month day numac l))"

text \<open>
  What identifies the law of an entry, and of a link target: year, month, day, identifier.
  \<open>germanNotice l link\<close>: the title extracted for the link is a German-translation notice.
\<close>

definition entryKey :: "LawIndexEntry \<Rightarrow> nat \<times> jsstring \<times> jsstring \<times> jsstring" where
  "entryKey e = (e_year e, e_month e, e_day e, e_numac e)"

definition urlKey :: "jsstring \<Rightarrow> (nat \<times> jsstring \<times> jsstring \<times> jsstring) option" where
  "urlKey h = map_option (\<lambda>(yearStr, month, day, numac). (digitsValue yearStr, month, day, numac))
                (urlMatch h)"

definition extractedTitle :: "lang \<Rightarrow> anchor \<Rightarrow> jsstring" where
  "extractedTitle l link =
     (case row_cells link of
        Some tds \<Rightarrow> if 2 \<le> length tds then extractTitle l (tds ! 1) else []
      | None \<Rightarrow> [])"

text \<open>\<open>yields l link\<close>: the loop body pushes an entry for the link.\<close>

definition yields :: "lang \<Rightarrow> anchor \<Rightarrow> bool" where
  "yields l link \<longleftrightarrow>
     urlMatch (href link) \<noteq> None \<and> row_cells link \<noteq> None \<and>
     \<not> isGermanTranslation (extractedTitle l link)"

section \<open>Pipeline orchestrator: secondary-language content (\<open>runDutchContent\<close>)\<close>

text \<open>
  \<open>interface ParsedLaw\<close>, the result of \<open>parseLawContent\<close>, and \<open>interface SeedDocument\<close>,
  the per-law artifact. \<open>parseLawContent\<close> reads the page through jsdom and is a parameter
  of the stage, as is \<open>fs.writeFileSync\<close>, which returns the exception it throws, if any.
\<close>

record ParsedLaw =
  law_title :: jsstring
  law_numac :: jsstring
  entryIntoForce :: "jsstring option"
  law_source :: "jsstring option"
  law_provisions :: "ParsedProvision list"

record SeedDocument =
  seed_id :: jsstring
  seed_type :: jsstring
  seed_title :: jsstring
  seed_status :: jsstring
  seed_issued_date :: jsstring
  seed_url :: jsstring
  seed_language :: jsstring
  seed_numac :: jsstring
  seed_provisions :: "ParsedProvision list"

text \<open>
  The state of \<open>runDutchContent\<close>: the three counters, the files written, and the world
  of the transport.
\<close>

record stage =
  processed :: nat
  failed :: nat
  skipped :: nat
  files :: "(jsstring \<times> SeedDocument) list"
  transport :: world

text \<open>
  \<open>p => ({ ..., ...(p.chapter ? { chapter: p.chapter } : {}) })\<close>: an empty chapter is
  left out.
\<close>

definition seedProvision :: "ParsedProvision \<Rightarrow> ParsedProvision" where
  "seedProvision p = p\<lparr>p_chapter := (if truthy (p_chapter p) then p_chapter p else None)\<rparr>"

definition dutchSeed :: "LawIndexEntry \<Rightarrow> ParsedLaw \<Rightarrow> SeedDocument" where
  "dutchSeed entry parsed =
     \<lparr>seed_id = js ''wet-'' @ e_date entry @ js ''-'' @ e_numac entry @ js ''-nl'',
      seed_type = js ''statute'',
      seed_title = (if law_title parsed \<noteq> [] then law_title parsed else e_title entry),
      seed_status = js ''in_force'',
      seed_issued_date = e_date entry,
      seed_url = buildJustelUrl (e_year entry) (e_month entry) (e_day entry) (e_numac entry) nl,
      seed_language = js ''nl'',
      seed_numac = e_numac entry,
      seed_provisions = map seedProvision (law_provisions parsed)\<rparr>"

text \<open>The \<open>catch (error)\<close> block of the loop.\<close>

definition dutchCatch :: "jserror \<Rightarrow> stage \<Rightarrow> stage" where
  "dutchCatch error st =
     (let st1 = st\<lparr>failed := failed st + 1\<rparr>
      in if includes_str (error_to_string error) (js ''404'')
         then st1\<lparr>skipped := skipped st1 + 1\<rparr>
         else st1)"

text \<open>One iteration of \<open>for (const entry of entries)\<close>: the \<open>try\<close> block and its handler.\<close>

definition dutchStep ::
  "(jsstring \<Rightarrow> jsstring \<Rightarrow> ParsedLaw) \<Rightarrow> (jsstring \<Rightarrow> SeedDocument \<Rightarrow> jserror option) \<Rightarrow> env
     \<Rightarrow> LawIndexEntry \<Rightarrow> stage \<Rightarrow> stage" where
  "dutchStep parseLawContent writeFileSync ev entry st =
     (case fetchLawContent ev (e_year entry) (e_month entry) (e_day entry) (e_numac entry) nl
             (transport st) of
        (Inl error, w) \<Rightarrow> dutchCatch error (st\<lparr>transport := w\<rparr>)
      | (Inr html, w) \<Rightarrow>
          (let st1 = st\<lparr>transport := w\<rparr>;
               parsed = parseLawContent html (e_numac entry)
           in if length (law_provisions parsed) = 0 then st1\<lparr>skipped := skipped st1 + 1\<rparr>
              else (let seed = dutchSeed entry parsed;
                        seedPath = seed_id seed @ js ''.json''
                    in case writeFileSync seedPath seed of
                         Some error \<Rightarrow> dutchCatch error st1
                       | None \<Rightarrow> st1\<lparr>files := files st1 @ [(seedPath, seed)],
                                      processed := processed st1 + 1\<rparr>)))"

fun dutchLoop ::
  "(jsstring \<Rightarrow> jsstring \<Rightarrow> ParsedLaw) \<Rightarrow> (jsstring \<Rightarrow> SeedDocument \<Rightarrow> jserror option) \<Rightarrow> env
     \<Rightarrow> LawIndexEntry list \<Rightarrow> stage \<Rightarrow> stage" where
  "dutchLoop parseLawContent writeFileSync ev [] st = st"
| "dutchLoop parseLawContent writeFileSync ev (entry # entries) st =
     dutchLoop parseLawContent writeFileSync ev entries
       (dutchStep parseLawContent writeFileSync ev entry st)"

text \<open>
  \<open>runDutchContent\<close> starts with the three counters at 0; the world of the transport is
  the one the earlier stages left. Creating the seed directory and the console output
  are left out.
\<close>

definition runDutchContent ::
  "(jsstring \<Rightarrow> jsstring \<Rightarrow> ParsedLaw) \<Rightarrow> (jsstring \<Rightarrow> SeedDocument \<Rightarrow> jserror option) \<Rightarrow> env
     \<Rightarrow> LawIndexEntry list \<Rightarrow> world \<Rightarrow> stage" where
  "runDutchContent parseLawContent writeFileSync ev entries w =
     dutchLoop parseLawContent writeFileSync ev entries
       \<lparr>processed = 0, failed = 0, skipped = 0, files = [], transport = w\<rparr>"

section \<open>Record consolidator (\<open>dedupeProvisions\<close> in scripts/build-db.ts)\<close>

text \<open>
  \<open>interface ProvisionSeed\<close>: \<open>chapter\<close> (here \<open>chapter_name\<close>) and \<open>title\<close> are optional, an absent
  one is \<open>None\<close>.
\<close>

record ProvisionSeed =
  provision_ref :: jsstring
  chapter_name :: "jsstring option"
  section_num :: jsstring
  title :: "jsstring option"
  content :: jsstring

definition normalizeWhitespace :: "jsstring \<Rightarrow> jsstring" where
  "normalizeWhitespace text = trim (replaceWsRuns text)"

text \<open>
  \<open>new Map<string, ProvisionSeed>()\<close> keeps its keys in insertion order, and \<open>set\<close> on a
  key already present replaces the value where the key stands: an association list.
\<close>

type_synonym refmap = "(jsstring \<times> ProvisionSeed) list"

fun map_get :: "refmap \<Rightarrow> jsstring \<Rightarrow> ProvisionSeed option" where
  "map_get [] k = None"
| "map_get ((k', v) # m) k = (if k' = k then Some v else map_get m k)"

fun map_set :: "refmap \<Rightarrow> jsstring \<Rightarrow> ProvisionSeed \<Rightarrow> refmap" where
  "map_set [] k v = [(k, v)]"
| "map_set ((k', v') # m) k v = (if k' = k then (k, v) # m else (k', v') # map_set m k v)"

text \<open>One iteration of the \<open>for (const provision of provisions)\<close> loop.\<close>

definition dedupe_step :: "refmap \<Rightarrow> ProvisionSeed \<Rightarrow> refmap" where
  "dedupe_step byRef provision =
     (let ref = trim (provision_ref provision) in
      case map_get byRef ref of
        None \<Rightarrow> map_set byRef ref (provision\<lparr>provision_ref := ref\<rparr>)
      | Some existing \<Rightarrow>
          (let existingLen = length (normalizeWhitespace (content existing));
               incomingLen = length (normalizeWhitespace (content provision))
           in if incomingLen > existingLen
              then map_set byRef ref
                     (provision\<lparr>provision_ref := ref,
                                title := js_or (title provision) (title existing)\<rparr>)
              else byRef))"

fun dedupe_loop :: "refmap \<Rightarrow> ProvisionSeed list \<Rightarrow> refmap" where
  "dedupe_loop byRef [] = byRef"
| "dedupe_loop byRef (provision # provisions) =
     dedupe_loop (dedupe_step byRef provision) provisions"

definition dedupeProvisions :: "ProvisionSeed list \<Rightarrow> ProvisionSeed list" where
  "dedupeProvisions provisions = map snd (dedupe_loop [] provisions)"

text \<open>Example inputs of the consolidator.\<close>

definition seed_long :: ProvisionSeed where
  "seed_long = \<lparr>provision_ref = js ''art1'', chapter_name = None, section_num = js ''1'',
      title = None, content = js ''Le Roi fixe la date.''\<rparr>"

definition seed_short :: ProvisionSeed where
  "seed_short = \<lparr>provision_ref = js ''art1'', chapter_name = None, section_num = js ''1'',
      title = Some (js ''Article 1''), content = js ''Abroge.''\<rparr>"

definition seed_tie :: ProvisionSeed where
  "seed_tie = \<lparr>provision_ref = js '' art1'', chapter_name = None, section_num = js ''1'',
      title = Some (js ''Art. 1''), content = js ''Le  Roi fixe la  date.''\<rparr>"

definition seed_longer :: ProvisionSeed where
  "seed_longer = \<lparr>provision_ref = js ''art1 '', chapter_name = None, section_num = js ''1'',
      title = Some [], content = js ''Le Roi fixe la date d'entree.''\<rparr>"

definition seed_other :: ProvisionSeed where
  "seed_other = \<lparr>provision_ref = js ''art2'', chapter_name = None, section_num = js ''2'',
      title = Some (js ''Article 2''), content = js ''La presente loi entre en vigueur.''\<rparr>"

text \<open>Example runs of the transport.\<close>

text \<open>
  An example run: every request takes 40 ms and is answered with status 404; timers fire
  on time; the process starts with \<open>lastRequestTime = 0\<close>.
\<close>

definition env_404 :: env where
  "env_404 = \<lparr>net = (\<lambda>k url. (40, Response 404 (Body []))), timer_lag = (\<lambda>k. 0),
              decode = (\<lambda>b. b)\<rparr>"

definition world_0 :: world where
  "world_0 = \<lparr>clock = 1000000, lastRequestTime = 0, requests = 0, timers = 0, trace = []\<rparr>"

text \<open>An example run where the first two requests fail and the third one succeeds.\<close>

definition env_flaky :: env where
  "env_flaky = \<lparr>net = (\<lambda>k url. if k = 0 then (40, Rejected (new_Error (js ''fetch failed'')))
                               else if k = 1 then (40, Response 503 (Body []))
                               else (40, Response 200 (Body (js ''<html>'')))),
                timer_lag = (\<lambda>k. 0), decode = (\<lambda>b. b)\<rparr>"

definition url_nl :: jsstring where
  "url_nl = buildJustelUrl 2020 (js ''01'') (js ''15'') (js ''2020010203'') nl"

definition two_calls :: "env \<Rightarrow> jsstring \<Rightarrow> world \<Rightarrow> world" where
  "two_calls ev url w = snd (rateLimitedFetch ev url (snd (rateLimitedFetch ev url w)))"

text \<open>
  An example run where every request takes 40 ms and is answered with status 200;
  \<open>world_1\<close> is the state in which the first call returns, 40 ms after its request.
\<close>

definition env_ok :: env where
  "env_ok = \<lparr>net = (\<lambda>k url. (40, Response 200 (Body (js ''<html>'')))), timer_lag = (\<lambda>k. 0),
             decode = (\<lambda>b. b)\<rparr>"

definition world_1 :: world where
  "world_1 = snd (rateLimitedFetch env_ok url_nl world_0)"

text \<open>
  Example fragments of a law page: three article anchors and one chapter heading between
  the first and the second anchor. \<open>fragment_3\<close> spells the markup as the page source
  does; \<open>fragment_serialised\<close> is the same fragment as \<open>innerHTML\<close> serialises it,
  which is the form in which \<open>parseLawContent\<close> hands the section to \<open>parseArticles\<close>:
  element and attribute names in lower case, attribute values in double quotes.
\<close>

definition fragment_3 :: jsstring where
  "fragment_3 = js (''<A NAME='Art.1er'>Art. 1er</A> Un.<BR>CHAPITRE II. - Divers<BR>'' @
                    ''<A NAME='Art.2'>Art. 2</A> Deux.<BR><A NAME='Art.3'>Art. 3</A> Trois.'')"

definition fragment_serialised :: jsstring where
  \<open>fragment_serialised =
     js (''<a name="Art.1er">Art. 1er</a> Un.<br>CHAPITRE II. - Divers<br>'' @
         ''<a name="Art.2">Art. 2</a> Deux.<br><a name="Art.3">Art. 3</a> Trois.'')\<close>

text \<open>
  Example anchors of a yearly index: a law in a table row, a German-translation notice
  (in French and in Dutch), a link that does not decompose (one-digit day), and the
  first law's link outside any table row.
\<close>

definition cell_law :: jsstring where
  "cell_law = js ''12 JANVIER 2020. - Loi portant des dispositions diverses (1) '' @ [10] @
              js ''Publi'' @ [233] @ js '' le 24-01-2020'' @ [10] @ js ''Source : JUSTICE''"

definition link_law :: anchor where
  "link_law = \<lparr>href = js ''/eli/loi/2020/01/12/2020010203/justel'',
               row_cells = Some [js ''1'', cell_law, js ''Justel'']\<rparr>"

definition link_german_fr :: anchor where
  "link_german_fr = \<lparr>href = js ''/eli/loi/2020/02/03/2020020304/justel'',
                     row_cells = Some [js ''2'', js ''Loi. - Traduction  allemande'', js ''Justel'']\<rparr>"

definition link_german_nl :: anchor where
  "link_german_nl = \<lparr>href = js ''/eli/wet/2020/02/03/2020020304/justel'',
                     row_cells = Some [js ''2'', js ''Wet. - Duitse vertaling'', js ''Justel'']\<rparr>"

definition link_broken :: anchor where
  "link_broken = \<lparr>href = js ''/eli/loi/2020/01/5/2020010555/justel'',
                  row_cells = Some [js ''3'', js ''Loi'', js ''Justel'']\<rparr>"

definition link_no_row :: anchor where
  "link_no_row = \<lparr>href = js ''/eli/loi/2020/01/12/2020010203/justel'', row_cells = None\<rparr>"

definition entry_law :: LawIndexEntry where
  "entry_law =
     \<lparr>e_index = 1,
      e_title = js ''12 JANVIER 2020. - Loi portant des dispositions diverses'',
      e_date = js ''2020-01-12'', e_year = 2020, e_month = js ''01'', e_day = js ''12'',
      e_numac = js ''2020010203'',
      e_justelUrl = js ''http://www.ejustice.just.fgov.be/eli/loi/2020/01/12/2020010203/justel'',
      e_source = js ''JUSTICE'', e_publicationDate = js ''24-01-2020''\<rparr>"

section \<open>Invariants of the cleaned text\<close>

text \<open>
  \<open>tidy s\<close>: no tab, and no two spaces in a row. \<open>noBlankLine s\<close>: every line feed is
  followed by a character that is not whitespace. \<open>goodLine l\<close>: a non-empty line without
  line feed, trimmed and tidy.
\<close>

fun tidy :: "jsstring \<Rightarrow> bool" where
  "tidy [] = True"
| "tidy (c # cs) = (c \<noteq> 9 \<and> (c = 32 \<longrightarrow> cs = [] \<or> hd cs \<noteq> 32) \<and> tidy cs)"

fun noBlankLine :: "jsstring \<Rightarrow> bool" where
  "noBlankLine [] = True"
| "noBlankLine (c # cs) =
     ((c = 10 \<longrightarrow> cs \<noteq> [] \<and> \<not> isWhiteSpace (hd cs)) \<and> noBlankLine cs)"

definition goodLine :: "jsstring \<Rightarrow> bool" where
  "goodLine l \<longleftrightarrow>
     l \<noteq> [] \<and> 10 \<notin> set l \<and> \<not> isWhiteSpace (hd l) \<and> \<not> isWhiteSpace (last l) \<and> tidy l"

section \<open>Views of the consolidator's state\<close>

text \<open>
  \<open>normLen p\<close>: the length that \<open>dedupeProvisions\<close> compares, that of the
  whitespace-normalized content. \<open>storedFor r stored ps\<close>: the article stored under
  reference \<open>r\<close> after the articles \<open>ps\<close> have been consumed, starting from \<open>stored\<close>;
  it is shown below to agree with the entry of the map built by the loop.
  \<open>refmap_ok m\<close>: the keys of the map are distinct and each value carries its key as
  reference.
\<close>

abbreviation normLen :: "ProvisionSeed \<Rightarrow> nat" where
  "normLen p \<equiv> length (normalizeWhitespace (content p))"

fun storedFor :: "jsstring \<Rightarrow> ProvisionSeed option \<Rightarrow> ProvisionSeed list \<Rightarrow> ProvisionSeed option" where
  "storedFor r stored [] = stored"
| "storedFor r stored (p # ps) =
     (if trim (provision_ref p) = r
      then storedFor r
             (Some (case stored of
                      None \<Rightarrow> p\<lparr>provision_ref := r\<rparr>
                    | Some e \<Rightarrow> if normLen e < normLen p
                               then p\<lparr>provision_ref := r, title := js_or (title p) (title e)\<rparr>
                               else e)) ps
      else storedFor r stored ps)"

definition refmap_ok :: "refmap \<Rightarrow> bool" where
  "refmap_ok m \<longleftrightarrow> distinct (map fst m) \<and> list_all (\<lambda>(k, v). provision_ref v = k) m"

section \<open>Verified properties\<close>

subsection \<open>Rate-limited transport\<close>

lemma limiter_fields:
  "requests (limiter ev w) = requests w"
  "lastRequestTime (limiter ev w) = clock (limiter ev w)"
  by (simp_all add: limiter_def sleep_def Let_def)

lemma attempt_loop_at_3:
  "attempt_loop ev url 3 w =
     (let (res, w') = do_fetch ev url w in
      case attempt_try ev url res of Inr t \<Rightarrow> (Inr t, w') | Inl e \<Rightarrow> (Inl e, w'))"
  by (subst attempt_loop.simps) (simp add: maxRetries_def split: prod.splits sum.splits)

lemma attempt_loop_at_2:
  "attempt_loop ev url 2 w =
     (let (res, w') = do_fetch ev url w in
      case attempt_try ev url res of Inr t \<Rightarrow> (Inr t, w')
      | Inl e \<Rightarrow> attempt_loop ev url 3 (sleep ev 2000 w'))"
  by (subst attempt_loop.simps) (simp add: maxRetries_def split: prod.splits sum.splits)

lemma attempt_loop_at_1:
  "attempt_loop ev url (Suc 0) w =
     (let (res, w') = do_fetch ev url w in
      case attempt_try ev url res of Inr t \<Rightarrow> (Inr t, w')
      | Inl e \<Rightarrow> attempt_loop ev url 2 (sleep ev 1000 w'))"
  by (subst attempt_loop.simps)
     (simp add: maxRetries_def flip: numeral_2_eq_2 split: prod.splits sum.splits)

lemmas attempt_loop_3 = attempt_loop_at_1 attempt_loop_at_2 attempt_loop_at_3

text \<open>
  C5. A call of \<open>rateLimitedFetch\<close> issues at most three requests. If the first
  attempt succeeds, its decoded body is returned and nothing else happens. If it fails, the
  caller is suspended for 1000 ms before the second attempt, and after a second failure for
  2000 ms before the third. The first successful attempt's decoded body is the result; if
  all three attempts fail, the result is the third attempt's own exception, unchanged. An
  attempt fails when \<open>fetch\<close> rejects, when the status is not a success status (the
  exception is then \<open>HTTP status for url\<close>), or when reading the body rejects.
\<close>

theorem rateLimitedFetch_retries:
  "((case rateLimitedFetch ev url w of (res, w') \<Rightarrow>
      length (request_times (call_events (limiter ev w) w')) \<le> 3 \<and>
      (\<forall>t. attempt_outcome ev url w 0 = Inr t \<longrightarrow>
         res = Inr t \<and> untimed (call_events (limiter ev w) w') = [Request url 0]) \<and>
      (\<forall>e1 t. attempt_outcome ev url w 0 = Inl e1 \<and> attempt_outcome ev url w 1 = Inr t \<longrightarrow>
         res = Inr t \<and>
         untimed (call_events (limiter ev w) w') = [Request url 0, Sleep 1000, Request url 0]) \<and>
      (\<forall>e1 e2 t. attempt_outcome ev url w 0 = Inl e1 \<and> attempt_outcome ev url w 1 = Inl e2 \<and>
           attempt_outcome ev url w 2 = Inr t \<longrightarrow>
         res = Inr t \<and>
         untimed (call_events (limiter ev w) w') =
           [Request url 0, Sleep 1000, Request url 0, Sleep 2000, Request url 0]) \<and>
      (\<forall>e1 e2 e3. attempt_outcome ev url w 0 = Inl e1 \<and> attempt_outcome ev url w 1 = Inl e2 \<and>
           attempt_outcome ev url w 2 = Inl e3 \<longrightarrow>
         res = Inl e3 \<and>
         untimed (call_events (limiter ev w) w') =
           [Request url 0, Sleep 1000, Request url 0, Sleep 2000, Request url 0]))) \<and>
   (response_ok status \<longrightarrow>
      attempt_try ev url (Response status (Body buffer)) = Inr (decode ev buffer)) \<and>
   (\<not> response_ok status \<longrightarrow>
      attempt_try ev url (Response status body) =
        Inl (new_Error (js ''HTTP '' @ decimal status @ js '' for '' @ url))) \<and>
   attempt_try ev url (Rejected e) = Inl e \<and>
   attempt_try ev url (Response status (BodyRejected e)) =
     (if response_ok status then Inl e
      else Inl (new_Error (js ''HTTP '' @ decimal status @ js '' for '' @ url)))"
  (is "?loop \<and> ?ok \<and> ?bad \<and> ?rej \<and> ?body")
proof -
  have loop: "?loop"
    by (simp add: rateLimitedFetch_def attempt_loop_3 attempt_outcome_def do_fetch_def
          sleep_def call_events_def limiter_fields Let_def
        split: prod.splits sum.splits)
  have single: "?ok \<and> ?bad \<and> ?rej \<and> ?body"
    by (simp add: attempt_try_def)
  from loop single show ?thesis by blast
qed


theorem rateLimitedFetch_retries_witness:
  "attempt_outcome env_flaky url_nl world_0 0 = Inl (new_Error (js ''fetch failed'')) \<and>
   attempt_outcome env_flaky url_nl world_0 1 =
     Inl (new_Error (js ''HTTP 503 for '' @ url_nl)) \<and>
   attempt_outcome env_flaky url_nl world_0 2 = Inr (js ''<html>'') \<and>
   fst (rateLimitedFetch env_flaky url_nl world_0) = Inr (js ''<html>'') \<and>
   untimed (call_events (limiter env_flaky world_0)
              (snd (rateLimitedFetch env_flaky url_nl world_0))) =
     [Request url_nl 0, Sleep 1000, Request url_nl 0, Sleep 2000, Request url_nl 0] \<and>
   attempt_outcome env_404 url_nl world_0 0 = Inl (new_Error (js ''HTTP 404 for '' @ url_nl)) \<and>
   attempt_outcome env_404 url_nl world_0 1 = Inl (new_Error (js ''HTTP 404 for '' @ url_nl)) \<and>
   attempt_outcome env_404 url_nl world_0 2 = Inl (new_Error (js ''HTTP 404 for '' @ url_nl)) \<and>
   fst (rateLimitedFetch env_404 url_nl world_0) =
     Inl (new_Error (js ''HTTP 404 for '' @ url_nl)) \<and>
   response_ok 200 \<and> \<not> response_ok 404"
  using rateLimitedFetch_retries [where ev = env_flaky and url = url_nl and w = world_0
          and status = 200 and buffer = "[]" and body = "Body []" and e = "new_Error []"]
        rateLimitedFetch_retries [where ev = env_404 and url = url_nl and w = world_0
          and status = 404 and buffer = "[]" and body = "Body []" and e = "new_Error []"]
  by (simp add: attempt_outcome_def env_flaky_def env_404_def attempt_try_def response_ok_def
        world_0_def decimal.simps js_def case_prod_beta)

lemma attempt_loop_keeps:
  "lastRequestTime (snd (attempt_loop ev url (Suc 0) w)) = lastRequestTime w \<and>
   clock w \<le> clock (snd (attempt_loop ev url (Suc 0) w)) \<and>
   (\<exists>es. trace (snd (attempt_loop ev url (Suc 0) w)) = trace w @ Request url (clock w) # es)"
  by (simp add: attempt_loop_3 do_fetch_def sleep_def timeout_ms_def Let_def
      split: prod.splits sum.splits)

lemma limiter_stamp:
  assumes "lastRequestTime w \<le> clock w"
  shows "lastRequestTime w + RATE_LIMIT_MS \<le> lastRequestTime (limiter ev w)"
    and "trace (limiter ev w) = trace w @
          (if clock w - lastRequestTime w < RATE_LIMIT_MS
           then [Sleep (RATE_LIMIT_MS - (clock w - lastRequestTime w))] else [])"
    and "clock w \<le> clock (limiter ev w)"
  using assms
  by (simp_all add: limiter_def sleep_def timeout_ms_def RATE_LIMIT_MS_def Let_def)

lemma request_times_append: "request_times (xs @ ys) = request_times xs @ request_times ys"
  by (induction xs rule: request_times.induct) simp_all

lemma first_request_of_call:
  assumes "lastRequestTime w \<le> clock w"
  shows "\<exists>ts. request_times (call_events w (snd (rateLimitedFetch ev url w))) =
           lastRequestTime (snd (rateLimitedFetch ev url w)) # ts"
proof -
  obtain es where es: "trace (snd (rateLimitedFetch ev url w)) =
      trace (limiter ev w) @ Request url (clock (limiter ev w)) # es"
    using attempt_loop_keeps [of ev url "limiter ev w"] by (auto simp: rateLimitedFetch_def)
  have last: "lastRequestTime (snd (rateLimitedFetch ev url w)) = clock (limiter ev w)"
    using attempt_loop_keeps [of ev url "limiter ev w"]
    by (simp add: rateLimitedFetch_def limiter_fields)
  show ?thesis
    using es last limiter_stamp(2) [OF assms, of ev]
    by (simp add: call_events_def request_times_append)
qed

text \<open>
  C6, as amended. In a process whose clock has not gone back behind the stored timestamp,
  the limiter computes the time elapsed since \<open>lastRequestTime\<close>, suspends the caller for
  \<open>RATE_LIMIT_MS - elapsed\<close> exactly when that is below \<open>RATE_LIMIT_MS\<close>, and stores the
  clock in \<open>lastRequestTime\<close> immediately before the call's first request, which is
  initiated at that very time; the timestamp is not touched again when the call completes.
  Hence the first requests of two consecutive calls are initiated at least 500 ms apart,
  however long the caller idles in between. (The retry attempts inside a call do not move
  the timestamp: they are not spaced against the next call.)
\<close>

theorem limiter_spaces_call_starts:
  assumes "lastRequestTime w \<le> clock w"
  shows "(case rateLimitedFetch ev url w of (res, w') \<Rightarrow>
           trace (limiter ev w) = trace w @
             (if clock w - lastRequestTime w < RATE_LIMIT_MS
              then [Sleep (RATE_LIMIT_MS - (clock w - lastRequestTime w))] else []) \<and>
           lastRequestTime (limiter ev w) = clock (limiter ev w) \<and>
           lastRequestTime w + RATE_LIMIT_MS \<le> lastRequestTime (limiter ev w) \<and>
           lastRequestTime w' = lastRequestTime (limiter ev w) \<and>
           lastRequestTime w' \<le> clock w' \<and>
           (\<exists>ts. request_times (call_events w w') = lastRequestTime w' # ts) \<and>
           (case rateLimitedFetch ev url2 (w'\<lparr>clock := clock w' + int idle\<rparr>) of (res2, w'') \<Rightarrow>
              \<exists>t1 ts1 t2 ts2.
                request_times (call_events w w') = t1 # ts1 \<and>
                request_times (call_events (w'\<lparr>clock := clock w' + int idle\<rparr>) w'') = t2 # ts2 \<and>
                t1 + RATE_LIMIT_MS \<le> t2))"
proof -
  obtain res w' where r1: "rateLimitedFetch ev url w = (res, w')" by (cases "rateLimitedFetch ev url w")
  let ?v = "w'\<lparr>clock := clock w' + int idle\<rparr>"
  obtain res2 w'' where r2: "rateLimitedFetch ev url2 ?v = (res2, w'')"
    by (cases "rateLimitedFetch ev url2 ?v")
  have keep: "lastRequestTime w' = lastRequestTime (limiter ev w)" "clock (limiter ev w) \<le> clock w'"
    using attempt_loop_keeps [of ev url "limiter ev w"] r1 by (simp_all add: rateLimitedFetch_def)
  have inv: "lastRequestTime w' \<le> clock w'"
    using keep by (simp add: limiter_fields)
  have inv2: "lastRequestTime ?v \<le> clock ?v" using inv by simp
  obtain ts1 where t1: "request_times (call_events w w') = lastRequestTime w' # ts1"
    using first_request_of_call [OF assms, of ev url] r1 by auto
  obtain ts2 where t2: "request_times (call_events ?v w'') = lastRequestTime w'' # ts2"
    using first_request_of_call [OF inv2, of ev url2] r2 by auto
  have keep2: "lastRequestTime w'' = lastRequestTime (limiter ev ?v)"
    using attempt_loop_keeps [of ev url2 "limiter ev ?v"] r2 by (simp add: rateLimitedFetch_def)
  have gap: "lastRequestTime w' + RATE_LIMIT_MS \<le> lastRequestTime w''"
    using limiter_stamp(1) [OF inv2, of ev] keep2 by simp
  show ?thesis
    using r1 r2 keep inv t1 t2 gap limiter_stamp [OF assms, of ev]
    by (simp add: limiter_fields)
qed

text \<open>
  C6 as stated fails. Every request is answered with 404 after 40 ms. The first call
  initiates its third attempt at 1003080 and fails at 1003120; the next call finds
  3120 ms elapsed since the timestamp, does not wait, and initiates its request at 1003120:
  40 ms after the previous initiation.
\<close>

theorem retry_then_next_call_unspaced:
  "request_times (trace (two_calls env_404 url_nl world_0)) =
     [1000000, 1001040, 1003080, 1003120, 1004160, 1006200] \<and>
   \<not> spaced (request_times (trace (two_calls env_404 url_nl world_0)))"
  by (simp add: two_calls_def rateLimitedFetch_def attempt_loop_3 limiter_def do_fetch_def
        sleep_def timeout_ms_def env_404_def world_0_def attempt_try_def response_ok_def
        RATE_LIMIT_MS_def Let_def)

text \<open>
  An example run of two calls, the second one made as soon as the first has returned:
  40 ms have passed since the first request, the limiter sleeps for the remaining 460 ms,
  and the second request starts 500 ms after the first.
\<close>

lemma world_1_value:
  "world_1 = \<lparr>clock = 1000040, lastRequestTime = 1000000, requests = 1, timers = 0,
              trace = [Request url_nl 1000000]\<rparr>"
  by (simp add: world_1_def rateLimitedFetch_def attempt_loop_3 limiter_def do_fetch_def
        env_ok_def world_0_def attempt_try_def response_ok_def RATE_LIMIT_MS_def Let_def)

lemma world_2_times:
  "request_times (call_events world_1 (snd (rateLimitedFetch env_ok url_nl world_1))) = [1000500]"
  by (simp add: world_1_value call_events_def rateLimitedFetch_def attempt_loop_3 limiter_def
        do_fetch_def sleep_def timeout_ms_def env_ok_def attempt_try_def response_ok_def
        RATE_LIMIT_MS_def Let_def)

theorem limiter_spaces_call_starts_witness:
  "lastRequestTime world_0 \<le> clock world_0 \<and>
   lastRequestTime world_1 \<le> clock world_1 \<and>
   clock world_1 - lastRequestTime world_1 = 40 \<and>
   trace (limiter env_ok world_1) = trace world_1 @ [Sleep 460] \<and>
   lastRequestTime (limiter env_ok world_1) = 1000500 \<and>
   request_times (call_events world_0 world_1) = [1000000] \<and>
   request_times (call_events world_1 (snd (rateLimitedFetch env_ok url_nl world_1))) = [1000500] \<and>
   (1000000::int) + RATE_LIMIT_MS \<le> 1000500"
proof -
  have h0: "lastRequestTime world_0 \<le> clock world_0" by (simp add: world_0_def)
  have h1: "lastRequestTime world_1 \<le> clock world_1" by (simp add: world_1_value)
  have e: "clock world_1 - lastRequestTime world_1 = 40" by (simp add: world_1_value)
  have t1: "request_times (call_events world_0 world_1) = [1000000]"
    by (simp add: world_1_value call_events_def world_0_def)
  have s: "trace (limiter env_ok world_1) = trace world_1 @ [Sleep 460] \<and>
           lastRequestTime world_1 + RATE_LIMIT_MS \<le> lastRequestTime (limiter env_ok world_1)"
    using limiter_spaces_call_starts [OF h1, where ev = env_ok and url = url_nl
        and ?url2.0 = url_nl and idle = 0]
    by (simp add: case_prod_beta e RATE_LIMIT_MS_def)
  have l: "lastRequestTime (limiter env_ok world_1) = 1000500"
    by (simp add: world_1_value limiter_def sleep_def timeout_ms_def env_ok_def
          RATE_LIMIT_MS_def Let_def)
  from h0 h1 e s l t1 world_2_times show ?thesis by (simp add: RATE_LIMIT_MS_def)
qed

subsection \<open>Markup cleaning\<close>

lemma isWhiteSpace_fast:
  "isWhiteSpace c \<longleftrightarrow>
     (if c \<le> 32 then (9 \<le> c \<and> c \<le> 13) \<or> c = 32
      else if c < 160 then False
      else c = 160 \<or> c = 5760 \<or> (8192 \<le> c \<and> c \<le> 8202) \<or> c = 8232 \<or> c = 8233 \<or>
           c = 8239 \<or> c = 8287 \<or> c = 12288 \<or> c = 65279)"
  unfolding isWhiteSpace_def by auto

lemma js_literals:
  "js ''<A'' = [60, 65]" "js ''</A>'' = [60, 47, 65, 62]" "js ''<BR'' = [60, 66, 82]"
  "js ''h'' = [104]" "js ''&#'' = [38, 35]" "js ''NAME='Art.'' = [78, 65, 77, 69, 61, 39, 65, 114, 116, 46]"
  "js ''CHAPITRE'' = [67, 72, 65, 80, 73, 84, 82, 69]"
  "js ''HOOFDSTUK'' = [72, 79, 79, 70, 68, 83, 84, 85, 75]"
  "js ''er'' = [101, 114]" "js ''IVXLCDM'' = [73, 86, 88, 76, 67, 68, 77]"
  "js ''Article'' = [65, 114, 116, 105, 99, 108, 101]" "js ''Art.'' = [65, 114, 116, 46]"
  "js ''. '' = [46, 32]" "js ''art'' = [97, 114, 116]"
  "js ''Article '' = [65, 114, 116, 105, 99, 108, 101, 32]"
  "js ''1er'' = [49, 101, 114]" "js ''1ER'' = [49, 69, 82]"
  "js ''Article 1er'' = [65, 114, 116, 105, 99, 108, 101, 32, 49, 101, 114]"
  by (simp_all add: js_def)

text \<open>A global replacement changes nothing when no suffix matches.\<close>

lemma gsub_no_match:
  "(\<And>u. u \<noteq> [] \<Longrightarrow> set u \<subseteq> set t \<Longrightarrow> m u = None) \<Longrightarrow> gsub m t = t"
proof (induction t)
  case Nil
  then show ?case by simp
next
  case (Cons c cs)
  have "m (c # cs) = None" using Cons.prems [of "c # cs"] by simp
  moreover have "gsub m cs = cs"
    using Cons.prems by (intro Cons.IH) auto
  ultimately show ?case by simp
qed

lemma strip_lit_head: "strip_lit (p # ps) u = Some r \<Longrightarrow> p \<in> set u"
  by (cases u) (auto split: if_splits)

lemma strip_ci_head_lt: "strip_ci (60 # ps) u = Some r \<Longrightarrow> 60 \<in> set u"
  by (cases u) (auto simp: upperA_def split: if_splits)

lemma char1_head: "char1 p u = Some r \<Longrightarrow> p \<in> set u"
  by (cases u) (auto simp: char1_def split: if_splits)

lemma replaceAll_absent:
  assumes "\<And>u r. m u = Some r \<Longrightarrow> x \<in> set u" and "x \<notin> set t"
  shows "replaceAll m rep t = t"
  unfolding replaceAll_def
proof (rule gsub_no_match)
  fix u :: jsstring
  assume "u \<noteq> []" "set u \<subseteq> set t"
  with assms show "map_option (\<lambda>rest. (rep, rest)) (m u) = None"
    by (cases "m u") auto
qed

lemma stripTags_no_lt: "60 \<notin> set t \<Longrightarrow> stripTags t = t"
proof -
  assume a: "60 \<notin> set t"
  have 1: "\<And>u r. re_anchor_open u = Some r \<Longrightarrow> 60 \<in> set u"
    by (auto simp: re_anchor_open_def js_literals dest: strip_ci_head_lt split: Option.bind_splits)
  have 2: "\<And>u r. re_anchor_close u = Some r \<Longrightarrow> 60 \<in> set u"
    by (auto simp: re_anchor_close_def js_literals dest: strip_ci_head_lt)
  have 3: "\<And>u r. re_br u = Some r \<Longrightarrow> 60 \<in> set u"
    by (auto simp: re_br_def js_literals dest: strip_ci_head_lt split: Option.bind_splits)
  have 4: "\<And>u r. re_heading u = Some r \<Longrightarrow> 60 \<in> set u"
    by (auto simp: re_heading_def dest: char1_head split: Option.bind_splits)
  have 5: "\<And>u r. re_tag u = Some r \<Longrightarrow> 60 \<in> set u"
    by (auto simp: re_tag_def dest: char1_head split: Option.bind_splits)
  show ?thesis
    using a by (simp add: stripTags_def replaceAll_absent [OF 1] replaceAll_absent [OF 2]
        replaceAll_absent [OF 3] replaceAll_absent [OF 4] replaceAll_absent [OF 5])
qed

lemma replaceEntity_no_amp: "38 \<notin> set t \<Longrightarrow> replaceEntity (38 # e) rep t = t"
  unfolding replaceEntity_def by (rule replaceAll_absent [where x = 38]) (auto dest: strip_lit_head)

lemma entity_literals:
  "js ''&nbsp;'' = 38 # js ''nbsp;''" "js ''&amp;'' = 38 # js ''amp;''"
  "js ''&lt;'' = 38 # js ''lt;''" "js ''&gt;'' = 38 # js ''gt;''" "js ''&quot;'' = 38 # js ''quot;''"
  "js ''&eacute;'' = 38 # js ''eacute;''" "js ''&egrave;'' = 38 # js ''egrave;''"
  "js ''&agrave;'' = 38 # js ''agrave;''" "js ''&acirc;'' = 38 # js ''acirc;''"
  "js ''&ecirc;'' = 38 # js ''ecirc;''" "js ''&icirc;'' = 38 # js ''icirc;''"
  "js ''&ocirc;'' = 38 # js ''ocirc;''" "js ''&ucirc;'' = 38 # js ''ucirc;''"
  "js ''&ugrave;'' = 38 # js ''ugrave;''" "js ''&ccedil;'' = 38 # js ''ccedil;''"
  "js ''&laquo;'' = 38 # js ''laquo;''" "js ''&raquo;'' = 38 # js ''raquo;''"
  by (simp_all add: js_def)

lemma decodeEntities_no_amp: "38 \<notin> set t \<Longrightarrow> decodeEntities t = t"
proof -
  assume a: "38 \<notin> set t"
  have n: "gsub re_numeric_entity t = t"
  proof (rule gsub_no_match)
    fix u :: jsstring
    assume "u \<noteq> []" "set u \<subseteq> set t"
    with a have "38 \<notin> set u" by auto
    then show "re_numeric_entity u = None"
      by (cases "re_numeric_entity u")
         (auto simp: re_numeric_entity_def js_literals dest: strip_lit_head split: Option.bind_splits)
  qed
  show ?thesis
    unfolding decodeEntities_def Let_def entity_literals
    by (simp only: replaceEntity_no_amp [OF a] n)
qed


lemma cleanArticleHtml_no_amp:
  "38 \<notin> set (stripTags h) \<Longrightarrow> cleanArticleHtml h = normalizeLines (stripTags h)"
  by (simp add: cleanArticleHtml_def decodeEntities_no_amp)

lemmas regex_eval = js_literals upperA_def isDigit_def isWhiteSpace_fast isBlank_def orElse_def
  digitsN_def digits1_def spaces1_def char1_def upTo_def replaceAll_def
  trim_def trimStart_def trimEnd_def substring_def startsWith_def

lemmas tags_eval = stripTags_def re_anchor_open_def re_anchor_close_def re_br_def
  re_heading_def re_tag_def Let_def

lemmas lines_eval = normalizeLines_def re_blank_lines_def Let_def

lemmas articles_eval = re_articlePattern_def re_chapter_def chapterTitle_def
  isChapterNumeral_def Let_def

lemma fragment_3_codes: "fragment_3 = map of_char
   (''<A NAME='Art.1er'>Art. 1er</A> Un.<BR>CHAPITRE II. - Divers<BR>'' @
                    ''<A NAME='Art.2'>Art. 2</A> Deux.<BR><A NAME='Art.3'>Art. 3</A> Trois.'')"
  by (simp add: fragment_3_def js_def)

lemma fragment_3_matches:
  "articleMatches 0 fragment_3 = [(js ''1er'', 0), (js ''2'', 63), (js ''3'', 99)]"
  by (simp add: fragment_3_codes regex_eval articles_eval js_def)

lemma fragment_3_texts:
  "cleanArticleHtml (substring fragment_3 0 63) = js ''Art. 1er Un.'' @ 10 # js ''CHAPITRE II. - Divers''"
  "cleanArticleHtml (substring fragment_3 63 99) = js ''Art. 2 Deux.''"
  "cleanArticleHtml (substring fragment_3 99 132) = js ''Art. 3 Trois.''"
proof -
  have s1: "stripTags (substring fragment_3 0 63) = js ''Art. 1er Un.'' @ 10 # js ''CHAPITRE II. - Divers'' @ [10]"
    by (simp add: fragment_3_codes regex_eval tags_eval js_def)
  have s2: "stripTags (substring fragment_3 63 99) = js ''Art. 2 Deux.'' @ [10]"
    by (simp add: fragment_3_codes regex_eval tags_eval js_def)
  have s3: "stripTags (substring fragment_3 99 132) = js ''Art. 3 Trois.''"
    by (simp add: fragment_3_codes regex_eval tags_eval js_def)
  show "cleanArticleHtml (substring fragment_3 0 63) = js ''Art. 1er Un.'' @ 10 # js ''CHAPITRE II. - Divers''"
    by (subst cleanArticleHtml_no_amp; simp only: s1) (simp_all add: regex_eval lines_eval js_def)
  show "cleanArticleHtml (substring fragment_3 63 99) = js ''Art. 2 Deux.''"
    by (subst cleanArticleHtml_no_amp; simp only: s2) (simp_all add: regex_eval lines_eval js_def)
  show "cleanArticleHtml (substring fragment_3 99 132) = js ''Art. 3 Trois.''"
    by (subst cleanArticleHtml_no_amp; simp only: s3) (simp_all add: regex_eval lines_eval js_def)
qed


lemma fragment_serialised_codes: \<open>fragment_serialised = map of_char
     (''<a name="Art.1er">Art. 1er</a> Un.<br>CHAPITRE II. - Divers<br>'' @
         ''<a name="Art.2">Art. 2</a> Deux.<br><a name="Art.3">Art. 3</a> Trois.'')\<close>
  by (simp add: fragment_serialised_def js_def)

lemma fragment_serialised_matches: "articleMatches 0 fragment_serialised = []"
  by (simp add: fragment_serialised_codes regex_eval articles_eval js_def)

lemma fragment_serialised_text:
  "cleanArticleHtml fragment_serialised =
     js ''Art. 1er Un.'' @ 10 # js ''CHAPITRE II. - Divers'' @ 10 # js ''Art. 2 Deux.'' @
     10 # js ''Art. 3 Trois.''"
proof -
  have s: "stripTags fragment_serialised =
     js ''Art. 1er Un.'' @ 10 # js ''CHAPITRE II. - Divers'' @ 10 # js ''Art. 2 Deux.'' @
     10 # js ''Art. 3 Trois.''"
    by (simp add: fragment_serialised_codes regex_eval tags_eval js_def)
  show ?thesis
    by (subst cleanArticleHtml_no_amp; simp only: s) (simp_all add: regex_eval lines_eval js_def)
qed

lemma fragment_serialised_parts:
  "splitAtHeads (js ''Art. 1er Un.'' @ 10 # js ''CHAPITRE II. - Divers'' @ 10 #
                 js ''Art. 2 Deux.'' @ 10 # js ''Art. 3 Trois.'') =
     [js ''Art. 1er Un.'' @ 10 # js ''CHAPITRE II. - Divers'' @ [10],
      js ''Art. 2 Deux.'' @ [10], js ''Art. 3 Trois.'']"
  by (simp add: re_article_head_def regex_eval js_def)



lemma tidy_append_iff:
  "tidy (xs @ ys) \<longleftrightarrow>
     tidy xs \<and> tidy ys \<and> (xs = [] \<or> ys = [] \<or> last xs \<noteq> 32 \<or> hd ys \<noteq> 32)"
  by (induction xs) (auto simp: hd_append)

lemma tidy_sublist: "tidy (pre @ l @ post) \<Longrightarrow> tidy l"
  by (simp add: tidy_append_iff)

lemma collapse_blank_fix: "tidy t \<Longrightarrow> collapseRuns isBlank t = t"
proof (induction t)
  case Nil
  then show ?case by simp
next
  case (Cons c cs)
  have ih: "collapseRuns isBlank cs = cs" using Cons by simp
  show ?case
  proof (cases "isBlank c")
    case True
    then have c: "c = 32" using Cons.prems by (simp add: isBlank_def [of c])
    have "dropWhile isBlank cs = cs"
    proof (cases cs)
      case Nil
      then show ?thesis by simp
    next
      case (Cons d ds)
      then have "\<not> isBlank d" using c \<open>tidy (c # cs)\<close> by (simp add: isBlank_def [of d])
      with Cons show ?thesis by simp
    qed
    with True c ih show ?thesis by simp
  next
    case False
    with ih show ?thesis by simp
  qed
qed

lemma collapse_blank_tidy: "tidy (collapseRuns isBlank t)"
proof (induction "isBlank" t rule: collapseRuns.induct)
  case 1
  then show ?case by simp
next
  case (2 c cs)
  show ?case
  proof (cases "isBlank c")
    case True
    define r where "r = dropWhile isBlank cs"
    have ih: "tidy (collapseRuns isBlank r)" using 2 True by (simp add: r_def)
    have step: "collapseRuns isBlank (c # cs) = 32 # collapseRuns isBlank r"
      using True by (simp add: r_def)
    have "r = [] \<or> \<not> isBlank (hd r)"
      unfolding r_def using hd_dropWhile [of isBlank cs] by blast
    then have "collapseRuns isBlank r = [] \<or> hd (collapseRuns isBlank r) \<noteq> 32"
    proof (cases r)
      case Nil
      then show ?thesis by simp
    next
      case (Cons d ds)
      assume "r = [] \<or> \<not> isBlank (hd r)"
      with Cons have "\<not> isBlank d" by simp
      then have "collapseRuns isBlank (d # ds) = d # collapseRuns isBlank ds" "d \<noteq> 32"
        by (simp_all add: isBlank_def [of d])
      with Cons show ?thesis by simp
    qed
    with ih show ?thesis unfolding step by simp
  next
    case False
    then have "c \<noteq> 9" "c \<noteq> 32" by (simp_all add: isBlank_def [of c])
    with False 2 show ?thesis by simp
  qed
qed

lemma ws_then_newline_suffix: "ws_then_newline v = Some rest \<Longrightarrow> \<exists>pre. v = pre @ rest \<and> pre \<noteq> []"
proof (induction v)
  case Nil
  then show ?case by simp
next
  case (Cons c cs)
  show ?case
  proof (cases "ws_then_newline cs")
    case None
    with Cons.prems have "char1 10 (c # cs) = Some rest"
      by (simp add: orElse_def split: if_splits)
    then have "c # cs = [c] @ rest" by (simp add: char1_def split: if_splits)
    then show ?thesis by blast
  next
    case (Some r)
    show ?thesis
    proof (cases "isWhiteSpace c")
      case True
      with Some Cons.prems have "r = rest" by (simp add: orElse_def)
      with Some Cons.IH obtain pre where "cs = pre @ rest" by blast
      then have "c # cs = (c # pre) @ rest" by simp
      then show ?thesis by blast
    next
      case False
      with Cons.prems have "char1 10 (c # cs) = Some rest" by simp
      then have "c # cs = [c] @ rest" by (simp add: char1_def split: if_splits)
      then show ?thesis by blast
    qed
  qed
qed

lemma re_blank_lines_suffix: "re_blank_lines u = Some rest \<Longrightarrow> \<exists>pre. u = pre @ rest \<and> pre \<noteq> []"
proof -
  assume a: "re_blank_lines u = Some rest"
  then obtain s1 where s1: "char1 10 u = Some s1" and w: "ws_then_newline s1 = Some rest"
    by (auto simp: re_blank_lines_def split: Option.bind_splits)
  from s1 have u: "u = 10 # s1" by (cases u) (auto simp: char1_def split: if_splits)
  from ws_then_newline_suffix [OF w] obtain pre where "s1 = pre @ rest" by blast
  with u have "u = (10 # pre) @ rest" by simp
  then show ?thesis by blast
qed

lemma gsub_blank_head:
  "gsub (\<lambda>t. map_option (\<lambda>rest. ([10], rest)) (re_blank_lines t)) cs = [] \<or>
   hd (gsub (\<lambda>t. map_option (\<lambda>rest. ([10], rest)) (re_blank_lines t)) cs) = 10 \<or>
   (cs \<noteq> [] \<and> hd (gsub (\<lambda>t. map_option (\<lambda>rest. ([10], rest)) (re_blank_lines t)) cs) = hd cs)"
  by (cases cs) (auto split: option.splits)

lemma blank_lines_tidy:
  "tidy t \<Longrightarrow> tidy (gsub (\<lambda>t. map_option (\<lambda>rest. ([10], rest)) (re_blank_lines t)) t)"
proof (induction t rule: length_induct)
  case (1 t)
  let ?m = "\<lambda>t. map_option (\<lambda>rest. ([10], rest)) (re_blank_lines t)"
  show ?case
  proof (cases t)
    case Nil
    then show ?thesis by simp
  next
    case (Cons c cs)
    have keep: "tidy (c # gsub ?m cs)"
    proof -
      have "tidy cs" using 1(2) Cons by simp
      then have t: "tidy (gsub ?m cs)" using 1(1) Cons by simp
      have "c = 32 \<Longrightarrow> gsub ?m cs = [] \<or> hd (gsub ?m cs) \<noteq> 32"
        using gsub_blank_head [of cs] 1(2) Cons by auto
      with t 1(2) Cons show ?thesis by simp
    qed
    show ?thesis
    proof (cases "re_blank_lines (c # cs)")
      case None
      with keep Cons show ?thesis by simp
    next
      case (Some rest)
      show ?thesis
      proof (cases "length rest \<le> length cs")
        case True
        from re_blank_lines_suffix [OF Some] obtain pre where p: "c # cs = pre @ rest" by blast
        then have "tidy rest" using 1(2) Cons by (simp add: tidy_append_iff)
        then have "tidy (gsub ?m rest)" using 1(1) True Cons by simp
        with Some True Cons show ?thesis by simp
      next
        case False
        with Some keep Cons show ?thesis by simp
      qed
    qed
  qed
qed


lemma splitLines_first:
  "\<exists>lines. splitLines s = takeWhile (\<lambda>c. c \<noteq> 10) s # lines"
  by (induction s) (auto split: list.splits)

lemma splitLines_sublist:
  "l \<in> set (splitLines s) \<Longrightarrow> \<exists>pre post. s = pre @ l @ post"
proof (induction s arbitrary: l)
  case Nil
  then show ?case by simp
next
  case (Cons c cs)
  obtain lines where sp: "splitLines cs = takeWhile (\<lambda>c. c \<noteq> 10) cs # lines"
    using splitLines_first by blast
  show ?case
  proof (cases "c = 10")
    case True
    with Cons.prems have "l = [] \<or> l \<in> set (splitLines cs)" by simp
    then show ?thesis
    proof
      assume "l = []"
      then have "c # cs = [] @ l @ (c # cs)" by simp
      then show ?thesis by blast
    next
      assume "l \<in> set (splitLines cs)"
      with Cons.IH obtain pre post where "cs = pre @ l @ post" by blast
      then have "c # cs = (c # pre) @ l @ post" by simp
      then show ?thesis by blast
    qed
  next
    case False
    with Cons.prems sp
    have "l = c # takeWhile (\<lambda>c. c \<noteq> 10) cs \<or> l \<in> set (splitLines cs)" by auto
    then show ?thesis
    proof
      assume "l = c # takeWhile (\<lambda>c. c \<noteq> 10) cs"
      then have "c # cs = [] @ l @ dropWhile (\<lambda>c. c \<noteq> 10) cs" by simp
      then show ?thesis by blast
    next
      assume "l \<in> set (splitLines cs)"
      with Cons.IH obtain pre post where "cs = pre @ l @ post" by blast
      then have "c # cs = (c # pre) @ l @ post" by simp
      then show ?thesis by blast
    qed
  qed
qed

lemma splitLines_no_newline: "l \<in> set (splitLines s) \<Longrightarrow> 10 \<notin> set l"
  by (induction s arbitrary: l) (auto split: if_splits list.splits)

lemma trimEnd_prefix: "s = trimEnd s @ rev (takeWhile isWhiteSpace (rev s))"
proof -
  have "rev s = takeWhile isWhiteSpace (rev s) @ dropWhile isWhiteSpace (rev s)" by simp
  then have "rev (rev s) =
      rev (dropWhile isWhiteSpace (rev s)) @ rev (takeWhile isWhiteSpace (rev s))"
    by (metis rev_append)
  then show ?thesis by (simp add: trimEnd_def)
qed

lemma trim_sublist: "\<exists>pre post. l = pre @ trim l @ post"
proof -
  have 1: "l = takeWhile isWhiteSpace l @ trimStart l" by (simp add: trimStart_def)
  have 2: "trimStart l = trim l @ rev (takeWhile isWhiteSpace (rev (trimStart l)))"
    using trimEnd_prefix [of "trimStart l"] by (simp add: trim_def)
  from 1 2 have "l = takeWhile isWhiteSpace l @ trim l
      @ rev (takeWhile isWhiteSpace (rev (trimStart l)))" by simp
  then show ?thesis by blast
qed

lemma trim_ends:
  assumes "trim l \<noteq> []"
  shows "\<not> isWhiteSpace (hd (trim l))" and "\<not> isWhiteSpace (last (trim l))"
proof -
  let ?x = "trimStart l"
  have x: "?x \<noteq> []" using assms by (auto simp: trim_def trimEnd_def)
  have hx: "\<not> isWhiteSpace (hd ?x)"
    using x hd_dropWhile [of isWhiteSpace l] by (simp add: trimStart_def)
  have "?x = trim l @ rev (takeWhile isWhiteSpace (rev ?x))"
    using trimEnd_prefix [of ?x] by (simp add: trim_def)
  then have "hd ?x = hd (trim l)" using assms by (metis hd_append2)
  with hx show "\<not> isWhiteSpace (hd (trim l))" by simp
  have d: "dropWhile isWhiteSpace (rev ?x) \<noteq> []" using assms by (simp add: trim_def trimEnd_def)
  have "last (trim l) = hd (dropWhile isWhiteSpace (rev ?x))"
    using d by (simp add: trim_def trimEnd_def last_rev)
  then show "\<not> isWhiteSpace (last (trim l))"
    using hd_dropWhile [OF d] by simp
qed

lemma trim_fix: "l \<noteq> [] \<Longrightarrow> \<not> isWhiteSpace (hd l) \<Longrightarrow> \<not> isWhiteSpace (last l) \<Longrightarrow> trim l = l"
proof -
  assume a: "l \<noteq> []" "\<not> isWhiteSpace (hd l)" "\<not> isWhiteSpace (last l)"
  then have 1: "trimStart l = l" by (cases l) (simp_all add: trimStart_def)
  have drop_hd: "\<And>xs. xs \<noteq> [] \<Longrightarrow> \<not> isWhiteSpace (hd xs) \<Longrightarrow> dropWhile isWhiteSpace xs = xs"
    by (case_tac xs) simp_all
  have "rev l \<noteq> []" "hd (rev l) = last l" using a by (simp_all add: hd_rev)
  then have "dropWhile isWhiteSpace (rev l) = rev l" using a(3) by (intro drop_hd) simp_all
  with 1 show ?thesis by (simp add: trim_def trimEnd_def)
qed

lemma normalized_lines_good:
  assumes "tidy u" and "l \<in> set (filter (\<lambda>line. line \<noteq> []) (map trim (splitLines u)))"
  shows "goodLine l"
proof -
  from assms(2) obtain k where k: "k \<in> set (splitLines u)" and l: "l = trim k" and ne: "l \<noteq> []"
    by auto
  obtain pre post where "u = pre @ k @ post" using splitLines_sublist [OF k] by blast
  then have tk: "tidy k" using assms(1) tidy_sublist by blast
  obtain p q where "k = p @ trim k @ q" using trim_sublist by blast
  then have tl: "tidy l" using tk tidy_sublist l by metis
  have "set l \<subseteq> set k" using \<open>k = p @ trim k @ q\<close> l by (metis Un_iff set_append subsetI)
  then have nl: "10 \<notin> set l" using splitLines_no_newline [OF k] by blast
  show ?thesis
    using ne nl tl trim_ends [of k] l by (simp add: goodLine_def)
qed


lemma joinLines_Cons: "ls \<noteq> [] \<Longrightarrow> joinLines (l # ls) = l @ 10 # joinLines ls"
  by (cases ls) simp_all

lemma joinLines_hd:
  "ls \<noteq> [] \<Longrightarrow> hd ls \<noteq> [] \<Longrightarrow> joinLines ls \<noteq> [] \<and> hd (joinLines ls) = hd (hd ls)"
  by (induction ls rule: joinLines.induct) simp_all

lemma joined_tidy: "(\<And>l. l \<in> set ls \<Longrightarrow> goodLine l) \<Longrightarrow> tidy (joinLines ls)"
proof (induction ls rule: joinLines.induct)
  case 1
  then show ?case by simp
next
  case (2 l)
  then show ?case by (simp add: goodLine_def)
next
  case (3 l m ls)
  have "tidy l" using 3(2) [of l] by (simp add: goodLine_def)
  moreover have "tidy (10 # joinLines (m # ls))" using 3 by simp
  ultimately show ?case by (simp add: tidy_append_iff)
qed

lemma noBlankLine_append: "10 \<notin> set xs \<Longrightarrow> noBlankLine (xs @ ys) = noBlankLine ys"
  by (induction xs) simp_all

lemma joined_noBlankLine:
  "(\<And>l. l \<in> set ls \<Longrightarrow> goodLine l) \<Longrightarrow> noBlankLine (joinLines ls)"
proof (induction ls rule: joinLines.induct)
  case 1
  then show ?case by simp
next
  case (2 l)
  then have "10 \<notin> set l" by (simp add: goodLine_def)
  then show ?case using noBlankLine_append [of l "[]"] by simp
next
  case (3 l m ls)
  have l: "10 \<notin> set l" using 3(2) [of l] by (simp add: goodLine_def)
  have m: "m \<noteq> []" "\<not> isWhiteSpace (hd m)" using 3(2) [of m] by (simp_all add: goodLine_def)
  have h: "joinLines (m # ls) \<noteq> [] \<and> hd (joinLines (m # ls)) = hd m"
    using joinLines_hd [of "m # ls"] m by simp
  have "noBlankLine (joinLines (m # ls))" using 3 by simp
  with h m have "noBlankLine (10 # joinLines (m # ls))" by simp
  then show ?case using noBlankLine_append [OF l] by simp
qed

lemma newline_is_space: "isWhiteSpace 10"
  by (simp add: isWhiteSpace_def)

lemma noBlankLine_fix:
  "noBlankLine y \<Longrightarrow> gsub (\<lambda>t. map_option (\<lambda>rest. ([10], rest)) (re_blank_lines t)) y = y"
proof (induction y)
  case Nil
  then show ?case by simp
next
  case (Cons c cs)
  have "re_blank_lines (c # cs) = None"
  proof (cases "c = 10")
    case True
    with Cons.prems obtain d ds where d: "cs = d # ds" "\<not> isWhiteSpace d"
      by (cases cs) auto
    then have "d \<noteq> 10" using newline_is_space by auto
    with d True show ?thesis by (simp add: re_blank_lines_def char1_def)
  next
    case False
    then show ?thesis by (simp add: re_blank_lines_def char1_def)
  qed
  with Cons show ?case by simp
qed

lemma splitLines_line: "10 \<notin> set l \<Longrightarrow> splitLines l = [l]"
  by (induction l) simp_all

lemma splitLines_append: "10 \<notin> set l \<Longrightarrow> splitLines (l @ 10 # rest) = l # splitLines rest"
  by (induction l) simp_all

lemma splitLines_joinLines:
  "ls \<noteq> [] \<Longrightarrow> (\<And>l. l \<in> set ls \<Longrightarrow> 10 \<notin> set l) \<Longrightarrow> splitLines (joinLines ls) = ls"
proof (induction ls rule: joinLines.induct)
  case 1
  then show ?case by simp
next
  case (2 l)
  then show ?case by (simp add: splitLines_line)
next
  case (3 l m ls)
  then show ?case by (simp add: splitLines_append)
qed

lemma normalizeLines_Nil: "normalizeLines [] = []"
  by (simp add: normalizeLines_def replaceAll_def trim_def trimStart_def trimEnd_def)

lemma normalizeLines_joined:
  assumes "\<And>l. l \<in> set ls \<Longrightarrow> goodLine l"
  shows "normalizeLines (joinLines ls) = joinLines ls"
proof (cases "ls = []")
  case True
  then show ?thesis by (simp add: normalizeLines_Nil)
next
  case False
  have 1: "collapseRuns isBlank (joinLines ls) = joinLines ls"
    using joined_tidy [OF assms] by (rule collapse_blank_fix)
  have 2: "replaceAll re_blank_lines [10] (joinLines ls) = joinLines ls"
    unfolding replaceAll_def using joined_noBlankLine [OF assms] by (rule noBlankLine_fix)
  have 3: "splitLines (joinLines ls) = ls"
    using False assms by (intro splitLines_joinLines) (auto simp: goodLine_def)
  have 4: "map trim ls = ls"
    using assms by (intro map_idI trim_fix) (auto simp: goodLine_def)
  have 5: "filter (\<lambda>line. line \<noteq> []) ls = ls"
    using assms by (intro filter_True) (auto simp: goodLine_def)
  show ?thesis
    by (simp add: normalizeLines_def 1 2 3 4 5)
qed

lemma normalizeLines_idem: "normalizeLines (normalizeLines t) = normalizeLines t"
proof -
  let ?u = "replaceAll re_blank_lines [10] (collapseRuns isBlank t)"
  let ?ls = "filter (\<lambda>line. line \<noteq> []) (map trim (splitLines ?u))"
  have "tidy ?u"
    unfolding replaceAll_def using collapse_blank_tidy by (rule blank_lines_tidy)
  then have "\<And>l. l \<in> set ?ls \<Longrightarrow> goodLine l" by (rule normalized_lines_good)
  then have "normalizeLines (joinLines ?ls) = joinLines ?ls" by (rule normalizeLines_joined)
  then show ?thesis by (simp add: normalizeLines_def)
qed

text \<open>
  C2 as stated fails. The cleaned form of \<open>a &lt; b &gt; c\<close> is \<open>a < b > c\<close>: the
  entities are decoded after the tags have been removed. A second application reads
  \<open>< b >\<close> as a tag and removes it.
\<close>

theorem cleanArticleHtml_not_idempotent:
  "cleanArticleHtml (js ''a &lt; b &gt; c'') = js ''a < b > c'' \<and>
   cleanArticleHtml (cleanArticleHtml (js ''a &lt; b &gt; c'')) = js ''a c''"
proof -
  have 1: "stripTags (js ''a &lt; b &gt; c'') = js ''a &lt; b &gt; c''"
    by (rule stripTags_no_lt) (simp add: js_def)
  have 2: "decodeEntities (js ''a &lt; b &gt; c'') = js ''a < b > c''"
    unfolding decodeEntities_def Let_def
    by (simp add: replaceEntity_def re_numeric_entity_def regex_eval js_def)
  have 3: "normalizeLines (js ''a < b > c'') = js ''a < b > c''"
    by (simp add: regex_eval lines_eval js_def)
  have 4: "stripTags (js ''a < b > c'') = js ''a  c''"
    by (simp add: regex_eval tags_eval js_def)
  have 5: "decodeEntities (js ''a  c'') = js ''a  c''"
    by (rule decodeEntities_no_amp) (simp add: js_def)
  have 6: "normalizeLines (js ''a  c'') = js ''a c''"
    by (simp add: regex_eval lines_eval js_def)
  show ?thesis
    by (simp only: cleanArticleHtml_def 1 2 3 4 5 6 simp_thms)
qed

text \<open>
  C2, as amended. Whenever the cleaned text contains neither \<open><\<close> nor \<open>&\<close>, cleaning
  it again leaves it unchanged: nothing in it can be read as a tag or as an entity, and
  the whitespace normalisation at the end of \<open>cleanArticleHtml\<close> is idempotent on every
  string.
\<close>

theorem cleanArticleHtml_idempotent_on_plain_output:
  assumes "60 \<notin> set (cleanArticleHtml html)" and "38 \<notin> set (cleanArticleHtml html)"
  shows "cleanArticleHtml (cleanArticleHtml html) = cleanArticleHtml html"
proof -
  have "cleanArticleHtml (cleanArticleHtml html) = normalizeLines (cleanArticleHtml html)"
    using assms by (simp add: cleanArticleHtml_def [of "cleanArticleHtml html"]
        stripTags_no_lt decodeEntities_no_amp)
  also have "\<dots> = cleanArticleHtml html"
    by (simp add: cleanArticleHtml_def [of html] normalizeLines_idem)
  finally show ?thesis .
qed

theorem cleanArticleHtml_idempotent_on_plain_output_witness:
  "60 \<notin> set (cleanArticleHtml (substring fragment_3 63 99)) \<and>
   38 \<notin> set (cleanArticleHtml (substring fragment_3 63 99)) \<and>
   cleanArticleHtml (cleanArticleHtml (substring fragment_3 63 99)) =
     cleanArticleHtml (substring fragment_3 63 99)"
proof -
  have 1: "60 \<notin> set (cleanArticleHtml (substring fragment_3 63 99))"
    by (simp add: fragment_3_texts js_def)
  have 2: "38 \<notin> set (cleanArticleHtml (substring fragment_3 63 99))"
    by (simp add: fragment_3_texts js_def)
  from 1 2 cleanArticleHtml_idempotent_on_plain_output [OF 1 2] show ?thesis by blast
qed

subsection \<open>Article splitter\<close>

text \<open>
  C1. \<open>parseLawContent\<close> passes the \<open>innerHTML\<close> of the text section to \<open>parseArticles\<close>,
  and the serialisation writes the article anchors as \<open><a name="Art.1er">\<close>, with double
  quotes. The anchor pattern of \<open>parseArticles\<close> asks for an apostrophe behind \<open>NAME=\<close>
  and behind the article number, so it finds no anchor in \<open>fragment_serialised\<close>, although
  the fragment contains the anchors of articles 1er, 2 and 3 and one chapter heading
  between the first and the second. The anchor-based strategy is left at once, the
  text-based fallback splits the cleaned text at the article heads, and the result is
  three provisions, titled Article 1er, Article 2 and Article 3, of which none carries a
  chapter label: articles 2 and 3 do not receive the label \<open>II. Divers\<close>.
\<close>

theorem parseArticles_serialised_no_chapter:
  "articleMatches 0 fragment_serialised = [] \<and>
   map p_title (parseArticles toLowerCase fragment_serialised) =
     [js ''Article 1er'', js ''Article 2'', js ''Article 3''] \<and>
   map p_chapter (parseArticles toLowerCase fragment_serialised) = [None, None, None]"
proof -
  have n: "articleNumber (js ''Art. 1er Un.'' @ 10 # js ''CHAPITRE II. - Divers'' @ [10]) = Some (js ''1er'')"
    "articleNumber (js ''Art. 2 Deux.'' @ [10]) = Some (js ''2'')"
    "articleNumber (js ''Art. 3 Trois.'') = Some (js ''3'')"
    by (simp_all add: articleNumber_def re_article_head_def regex_eval js_def)
  show ?thesis
    by (simp add: parseArticles_def parseArticlesFallback_def fragment_serialised_matches
          fragment_serialised_text fragment_serialised_parts n)
       (simp add: js_def)
qed

subsection \<open>Index extractor\<close>

lemma strip_lit_iff: "strip_lit p s = Some r \<longleftrightarrow> s = p @ r"
proof (induction p arbitrary: s)
  case Nil
  then show ?case by auto
next
  case (Cons a p)
  then show ?case by (cases s) auto
qed

lemma char1_iff: "char1 c s = Some r \<longleftrightarrow> s = c # r"
  by (cases s) (auto simp: char1_def)

lemma digitsN_iff:
  "digitsN n s = Some (d, r) \<longleftrightarrow> s = d @ r \<and> length d = n \<and> list_all isDigit d"
proof -
  have "s = d @ r \<Longrightarrow> take (length d) s = d \<and> drop (length d) s = r" by simp
  then show ?thesis by (auto simp: digitsN_def)
qed

lemma digits1_Some: "digits1 s = Some (d, r) \<Longrightarrow> s = d @ r \<and> d \<noteq> [] \<and> list_all isDigit d"
proof -
  assume a: "digits1 s = Some (d, r)"
  then have d: "d = takeWhile isDigit s" "r = dropWhile isDigit s" "d \<noteq> []"
    by (auto simp: digits1_def split: if_splits)
  have "list_all isDigit (takeWhile isDigit s)"
    by (simp add: list_all_iff) (metis set_takeWhileD)
  with d show ?thesis by simp
qed

lemma digits1_append:
  assumes "d \<noteq> []" "list_all isDigit d" "r = [] \<or> \<not> isDigit (hd r)"
  shows "digits1 (d @ r) = Some (d, r)"
proof -
  have a: "\<And>x. x \<in> set d \<Longrightarrow> isDigit x" using assms(2) by (simp add: list_all_iff)
  have "takeWhile isDigit (d @ r) = d" using assms(3) a
    by (cases r) (simp_all add: takeWhile_append2)
  moreover have "dropWhile isDigit (d @ r) = r" using assms(3) a
    by (cases r) (simp_all add: dropWhile_append2)
  ultimately show ?thesis using assms(1) by (simp add: digits1_def)
qed

lemma segment_literals:
  "js ''/eli/'' = [47, 101, 108, 105, 47]" "js ''loi'' = [108, 111, 105]"
  "js ''wet'' = [119, 101, 116]" "js ''/'' = [47]"
  "js ''/justel'' = [47, 106, 117, 115, 116, 101, 108]"
  "js ''/eli/loi/'' = js ''/eli/'' @ js ''loi'' @ [47]"
  "js ''/eli/wet/'' = js ''/eli/'' @ js ''wet'' @ [47]"
  by (simp_all add: js_def)

lemma re_justel_url_canonical:
  assumes "length yyyy = 4" "list_all isDigit yyyy" "length mm = 2" "list_all isDigit mm"
    "length dd = 2" "list_all isDigit dd" "numac \<noteq> []" "list_all isDigit numac"
  shows "re_justel_url (js ''/eli/'' @ pathSegment l @ js ''/'' @ yyyy @ js ''/'' @ mm @ js ''/'' @ dd
           @ js ''/'' @ numac @ js ''/justel'' @ rest) = Some ((yyyy, mm, dd, numac), rest)"
proof -
  let ?t4 = "js ''/justel'' @ rest"
  let ?t3 = "js ''/'' @ numac @ ?t4"
  let ?t2 = "js ''/'' @ dd @ ?t3"
  let ?t1 = "js ''/'' @ mm @ ?t2"
  let ?t0 = "js ''/'' @ yyyy @ ?t1"
  have seg: "orElse (strip_lit (js ''loi'') (pathSegment l @ ?t0))
               (strip_lit (js ''wet'') (pathSegment l @ ?t0)) = Some ?t0"
    by (cases l) (simp_all add: pathSegment_def orElse_def segment_literals)
  have y: "digitsN 4 (yyyy @ ?t1) = Some (yyyy, ?t1)" using assms by (simp add: digitsN_iff)
  have m: "digitsN 2 (mm @ ?t2) = Some (mm, ?t2)" using assms by (simp add: digitsN_iff)
  have d: "digitsN 2 (dd @ ?t3) = Some (dd, ?t3)" using assms by (simp add: digitsN_iff)
  have n: "digits1 (numac @ ?t4) = Some (numac, ?t4)"
    using assms by (intro digits1_append) (simp_all add: segment_literals isDigit_def)
  have e: "strip_lit (js ''/eli/'') (js ''/eli/'' @ pathSegment l @ ?t0) = Some (pathSegment l @ ?t0)"
    by (simp add: strip_lit_iff)
  have j: "strip_lit (js ''/justel'') ?t4 = Some rest" by (simp add: strip_lit_iff)
  have c: "\<And>x. char1 47 (js ''/'' @ x) = Some x" by (simp add: char1_iff segment_literals)
  show ?thesis
    unfolding re_justel_url_def by (simp only: e seg y m d n j c bind.bind_lunit prod.case)
qed

lemma BASE_URL_codes:
  "BASE_URL = [104, 116, 116, 112, 58, 47, 47, 119, 119, 119, 46, 101, 106, 117, 115, 116,
               105, 99, 101, 46, 106, 117, 115, 116, 46, 102, 103, 111, 118, 46, 98, 101]"
  by (simp add: BASE_URL_def js_def)

lemma re_justel_url_start: "re_justel_url u = Some r \<Longrightarrow> \<exists>t. u = 47 # 101 # t"
  by (auto simp: re_justel_url_def strip_lit_iff segment_literals split: Option.bind_splits)

lemma search_skip:
  "\<not> (c = 47 \<and> (\<exists>t. cs = 101 # t)) \<Longrightarrow> search re_justel_url (c # cs) = search re_justel_url cs"
proof -
  assume a: "\<not> (c = 47 \<and> (\<exists>t. cs = 101 # t))"
  have "re_justel_url (c # cs) = None"
  proof (cases "re_justel_url (c # cs)")
    case None
    then show ?thesis .
  next
    case (Some r)
    from re_justel_url_start [OF this] a show ?thesis by auto
  qed
  then show ?thesis by simp
qed

lemma search_here: "m s = Some r \<Longrightarrow> search m s = Some r"
  by (cases s) simp_all

lemma urlMatch_canonical:
  assumes "length yyyy = 4" "list_all isDigit yyyy" "length mm = 2" "list_all isDigit mm"
    "length dd = 2" "list_all isDigit dd" "numac \<noteq> []" "list_all isDigit numac"
  shows "urlMatch (canonicalUrl l yyyy mm dd numac) = Some (yyyy, mm, dd, numac)"
proof -
  let ?tail = "js ''/eli/'' @ pathSegment l @ js ''/'' @ yyyy @ js ''/'' @ mm @ js ''/'' @ dd
           @ js ''/'' @ numac @ js ''/justel'' @ []"
  have "search re_justel_url (BASE_URL @ ?tail) = search re_justel_url ?tail"
    unfolding BASE_URL_codes by (simp add: search_skip del: search.simps)
  also have "\<dots> = Some ((yyyy, mm, dd, numac), [])"
    using re_justel_url_canonical [OF assms] by (rule search_here)
  finally show ?thesis by (simp add: urlMatch_def canonicalUrl_def)
qed

lemma digitsValue_snoc: "digitsValue (ds @ [c]) = 10 * digitsValue ds + (c - 48)"
  by (simp add: digitsValue_def)

lemma digitsValue_pos:
  "ds \<noteq> [] \<Longrightarrow> list_all isDigit ds \<Longrightarrow> hd ds \<noteq> 48 \<Longrightarrow> 0 < digitsValue ds"
proof (induction ds rule: rev_induct)
  case Nil
  then show ?case by simp
next
  case (snoc c ds)
  show ?case
  proof (cases "ds = []")
    case True
    with snoc.prems show ?thesis by (simp add: digitsValue_def isDigit_def)
  next
    case False
    with snoc have "0 < digitsValue ds" by simp
    then show ?thesis by (simp add: digitsValue_snoc)
  qed
qed

lemma decimal_digitsValue:
  "ds \<noteq> [] \<Longrightarrow> list_all isDigit ds \<Longrightarrow> hd ds \<noteq> 48 \<Longrightarrow> decimal (digitsValue ds) = ds"
proof (induction ds rule: rev_induct)
  case Nil
  then show ?case by simp
next
  case (snoc c ds)
  from snoc.prems have c: "48 \<le> c" "c \<le> 57" by (simp_all add: isDigit_def)
  show ?case
  proof (cases "ds = []")
    case True
    with c show ?thesis by (simp add: digitsValue_def decimal.simps)
  next
    case False
    with snoc.prems have p: "0 < digitsValue ds" by (intro digitsValue_pos) simp_all
    have ih: "decimal (digitsValue ds) = ds" using False snoc by simp
    define k where "k = c - 48"
    have k: "c = 48 + k" "k < 10" using c by (simp_all add: k_def)
    let ?v = "10 * digitsValue ds + k"
    have "\<not> ?v < 10" using p by simp
    moreover have "?v div 10 = digitsValue ds" using k by simp
    moreover have "48 + ?v mod 10 = c" using k by simp
    ultimately have "decimal ?v = decimal (digitsValue ds) @ [c]"
      by (subst decimal.simps) simp
    with ih show ?thesis by (simp add: digitsValue_snoc k_def)
  qed
qed

text \<open>
  C7, as amended. For every canonical content URL whose four-digit year does not start
  with \<open>0\<close> (two-digit month and day, a non-empty numeric identifier, either language
  segment), decomposing it with the extractor's pattern and rebuilding it with
  \<open>buildJustelUrl\<close> for the same language gives the URL back.
\<close>

theorem url_round_trip:
  assumes "length yyyy = 4" "list_all isDigit yyyy" "hd yyyy \<noteq> 48"
    "length mm = 2" "list_all isDigit mm"
    "length dd = 2" "list_all isDigit dd" "numac \<noteq> []" "list_all isDigit numac"
  shows "rebuildUrl l (canonicalUrl l yyyy mm dd numac) = Some (canonicalUrl l yyyy mm dd numac)"
proof -
  have m: "urlMatch (canonicalUrl l yyyy mm dd numac) = Some (yyyy, mm, dd, numac)"
    using assms by (intro urlMatch_canonical)
  have "yyyy \<noteq> []" using assms(1) by auto
  then have "decimal (digitsValue yyyy) = yyyy" using assms by (intro decimal_digitsValue)
  with m show ?thesis by (simp add: rebuildUrl_def buildJustelUrl_def canonicalUrl_def)
qed

lemma digit_strings:
  "list_all isDigit (js ''2020'')" "list_all isDigit (js ''0999'')" "list_all isDigit (js ''01'')"
  "list_all isDigit (js ''12'')" "list_all isDigit (js ''31'')" "list_all isDigit (js ''2020010203'')"
  "list_all isDigit (js ''1234'')"
  "length (js ''2020'') = 4" "length (js ''0999'') = 4" "length (js ''01'') = 2"
  "length (js ''12'') = 2" "length (js ''31'') = 2"
  "js ''2020010203'' \<noteq> []" "js ''1234'' \<noteq> []" "hd (js ''2020'') \<noteq> 48"
  by (simp_all add: js_def isDigit_def)

theorem url_round_trip_witness:
  "rebuildUrl nl (canonicalUrl nl (js ''2020'') (js ''01'') (js ''12'') (js ''2020010203'')) =
     Some (canonicalUrl nl (js ''2020'') (js ''01'') (js ''12'') (js ''2020010203'')) \<and>
   canonicalUrl nl (js ''2020'') (js ''01'') (js ''12'') (js ''2020010203'') =
     js ''http://www.ejustice.just.fgov.be/eli/wet/2020/01/12/2020010203/justel''"
proof -
  have "canonicalUrl nl (js ''2020'') (js ''01'') (js ''12'') (js ''2020010203'') =
     js ''http://www.ejustice.just.fgov.be/eli/wet/2020/01/12/2020010203/justel''"
    by (simp add: canonicalUrl_def BASE_URL_def pathSegment_def js_def)
  with url_round_trip [of "js ''2020''" "js ''01''" "js ''12''" "js ''2020010203''" nl]
  show ?thesis by (simp only: digit_strings simp_thms)
qed

text \<open>
  C7 as stated fails on a year with a leading zero: the pattern accepts any four digits,
  the year is kept as a number, and \<open>buildJustelUrl\<close> prints it without the zero.
\<close>

theorem url_round_trip_leading_zero:
  "canonicalUrl fr (js ''0999'') (js ''12'') (js ''31'') (js ''1234'') =
     js ''http://www.ejustice.just.fgov.be/eli/loi/0999/12/31/1234/justel'' \<and>
   rebuildUrl fr (js ''http://www.ejustice.just.fgov.be/eli/loi/0999/12/31/1234/justel'') =
     Some (js ''http://www.ejustice.just.fgov.be/eli/loi/999/12/31/1234/justel'')"
proof -
  have c: "canonicalUrl fr (js ''0999'') (js ''12'') (js ''31'') (js ''1234'') =
     js ''http://www.ejustice.just.fgov.be/eli/loi/0999/12/31/1234/justel''"
    by (simp add: canonicalUrl_def BASE_URL_def pathSegment_def js_def)
  have m: "urlMatch (canonicalUrl fr (js ''0999'') (js ''12'') (js ''31'') (js ''1234'')) =
      Some (js ''0999'', js ''12'', js ''31'', js ''1234'')"
    by (intro urlMatch_canonical) (simp_all add: digit_strings)
  have v: "decimal (digitsValue (js ''0999'')) = js ''999''"
    by (simp add: digitsValue_def decimal.simps js_def)
  have "rebuildUrl fr (canonicalUrl fr (js ''0999'') (js ''12'') (js ''31'') (js ''1234'')) =
      Some (js ''http://www.ejustice.just.fgov.be/eli/loi/999/12/31/1234/justel'')"
    unfolding rebuildUrl_def m by (simp add: buildJustelUrl_def v BASE_URL_def pathSegment_def)
       (simp add: js_def)
  with c show ?thesis by simp
qed

lemma search_Some: "search m s = Some r \<Longrightarrow> \<exists>pre u. s = pre @ u \<and> m u = Some r"
proof (induction s)
  case Nil
  then have "[] = [] @ [] \<and> m [] = Some r" by simp
  then show ?case by (intro exI)
next
  case (Cons c cs)
  show ?case
  proof (cases "m (c # cs)")
    case None
    with Cons.prems have "search m cs = Some r" by simp
    from Cons.IH [OF this] obtain pre u where pu: "cs = pre @ u \<and> m u = Some r"
      by (elim exE)
    then have "c # cs = (c # pre) @ u \<and> m u = Some r" by simp
    then show ?thesis by (intro exI)
  next
    case (Some x)
    with Cons.prems have "c # cs = [] @ (c # cs) \<and> m (c # cs) = Some r" by simp
    then show ?thesis by (intro exI)
  qed
qed


lemma includes_str_middle: "includes_str (pre @ sub @ post) sub"
proof (induction pre)
  case Nil
  have "startsWith (sub @ post) sub" by (simp add: startsWith_def)
  then show ?case by (cases "sub @ post") (simp_all add: includes_str_def)
next
  case (Cons c pre)
  then show ?case by (simp add: includes_str_def)
qed

lemma re_justel_url_binds:
  assumes "re_justel_url u = Some ((y, m, d, n), rest)"
  shows "\<exists>s1 s2 s3 s4 s5 s6 s7 s8 s9 s10.
    strip_lit (js ''/eli/'') u = Some s1 \<and>
    orElse (strip_lit (js ''loi'') s1) (strip_lit (js ''wet'') s1) = Some s2 \<and>
    char1 47 s2 = Some s3 \<and> digitsN 4 s3 = Some (y, s4) \<and>
    char1 47 s4 = Some s5 \<and> digitsN 2 s5 = Some (m, s6) \<and>
    char1 47 s6 = Some s7 \<and> digitsN 2 s7 = Some (d, s8) \<and>
    char1 47 s8 = Some s9 \<and> digits1 s9 = Some (n, s10) \<and>
    strip_lit (js ''/justel'') s10 = Some rest"
  using assms
  unfolding re_justel_url_def bind_eq_Some_conv split_paired_Ex prod.case option.inject
      prod.inject
  apply (elim exE conjE)
  apply (intro exI conjI)
  apply assumption+
  apply simp_all
  done


lemma re_justel_url_shape:
  assumes "re_justel_url u = Some ((y, m, d, n), rest)"
  shows "\<exists>seg. (seg = js ''loi'' \<or> seg = js ''wet'') \<and>
           u = js ''/eli/'' @ seg @ [47] @ y @ [47] @ m @ [47] @ d @ [47] @ n @ js ''/justel'' @ rest"
proof -
  from re_justel_url_binds [OF assms] obtain s1 s2 s3 s4 s5 s6 s7 s8 s9 s10 where
    1: "strip_lit (js ''/eli/'') u = Some s1" and
    2: "orElse (strip_lit (js ''loi'') s1) (strip_lit (js ''wet'') s1) = Some s2" and
    3: "char1 47 s2 = Some s3" and 4: "digitsN 4 s3 = Some (y, s4)" and
    5: "char1 47 s4 = Some s5" and 6: "digitsN 2 s5 = Some (m, s6)" and
    7: "char1 47 s6 = Some s7" and 8: "digitsN 2 s7 = Some (d, s8)" and
    9: "char1 47 s8 = Some s9" and 10: "digits1 s9 = Some (n, s10)" and
    11: "strip_lit (js ''/justel'') s10 = Some rest"
    by (elim exE conjE)
  from 2 have "s1 = js ''loi'' @ s2 \<or> s1 = js ''wet'' @ s2"
    by (cases "strip_lit (js ''loi'') s1") (simp_all add: orElse_def strip_lit_iff)
  then obtain seg where seg: "seg = js ''loi'' \<or> seg = js ''wet''" and s1: "s1 = seg @ s2"
    by (elim disjE) simp_all
  have u: "u = js ''/eli/'' @ s1" using 1 by (simp add: strip_lit_iff)
  have e3: "s2 = 47 # s3" using 3 by (simp add: char1_iff)
  have e4: "s3 = y @ s4" using 4 by (simp add: digitsN_iff)
  have e5: "s4 = 47 # s5" using 5 by (simp add: char1_iff)
  have e6: "s5 = m @ s6" using 6 by (simp add: digitsN_iff)
  have e7: "s6 = 47 # s7" using 7 by (simp add: char1_iff)
  have e8: "s7 = d @ s8" using 8 by (simp add: digitsN_iff)
  have e9: "s8 = 47 # s9" using 9 by (simp add: char1_iff)
  have e10: "s9 = n @ s10" using digits1_Some [OF 10] by simp
  have e11: "s10 = js ''/justel'' @ rest" using 11 by (simp add: strip_lit_iff)
  have "u = js ''/eli/'' @ seg @ [47] @ y @ [47] @ m @ [47] @ d @ [47] @ n @ js ''/justel'' @ rest"
    unfolding u s1 e3 e4 e5 e6 e7 e8 e9 e10 e11 by simp
  with seg show ?thesis by (intro exI conjI)
qed

lemma urlMatch_isJustelLink: "urlMatch (href a) \<noteq> None \<Longrightarrow> isJustelLink a"
proof -
  assume "urlMatch (href a) \<noteq> None"
  then obtain y m d n rest where "search re_justel_url (href a) = Some ((y, m, d, n), rest)"
    by (auto simp: urlMatch_def)
  from search_Some [OF this] obtain pre u where
    h: "href a = pre @ u" and u: "re_justel_url u = Some ((y, m, d, n), rest)"
    by (elim exE conjE)
  from re_justel_url_shape [OF u] obtain seg where
    seg: "seg = js ''loi'' \<or> seg = js ''wet''" and
    us: "u = js ''/eli/'' @ seg @ [47] @ y @ [47] @ m @ [47] @ d @ [47] @ n @ js ''/justel'' @ rest"
    by (elim exE conjE)
  have 1: "includes_str (href a) (js ''/justel'')"
    using includes_str_middle
      [of "pre @ js ''/eli/'' @ seg @ [47] @ y @ [47] @ m @ [47] @ d @ [47] @ n" "js ''/justel''" rest]
    by (simp add: h us)
  have 2: "includes_str (href a) (js ''/eli/'' @ seg @ [47])"
    using includes_str_middle
      [of pre "js ''/eli/'' @ seg @ [47]" "y @ [47] @ m @ [47] @ d @ [47] @ n @ js ''/justel'' @ rest"]
    by (simp add: h us)
  from seg show ?thesis
  proof
    assume "seg = js ''loi''"
    with 1 2 show ?thesis by (simp add: isJustelLink_def segment_literals(6))
  next
    assume "seg = js ''wet''"
    with 1 2 show ?thesis by (simp add: isJustelLink_def segment_literals(7))
  qed
qed


text \<open>Whether a link yields an entry does not depend on the entries found so far.\<close>

lemma parseEntry_None_iff: "parseEntry l n a = None \<longleftrightarrow> \<not> yields l a"
proof (cases "urlMatch (href a)")
  case None
  then show ?thesis by (simp add: parseEntry_def yields_def)
next
  case (Some k)
  obtain y m d nu where k: "k = (y, m, d, nu)" by (cases k)
  show ?thesis
  proof (cases "row_cells a")
    case None
    with Some show ?thesis by (simp add: parseEntry_def yields_def k)
  next
    case (Some tds)
    with \<open>urlMatch (href a) = Some k\<close> show ?thesis
      by (simp add: parseEntry_def yields_def extractedTitle_def k Let_def)
  qed
qed

lemma parseEntry_Some:
  assumes "parseEntry l n a = Some e"
  shows "e_index e = n + 1" and "urlKey (href a) = Some (entryKey e)"
    and "e_title e = extractedTitle l a" and "\<not> isGermanTranslation (e_title e)"
proof -
  from assms obtain k where u: "urlMatch (href a) = Some k"
    by (cases "urlMatch (href a)") (simp_all add: parseEntry_def)
  obtain y m d nu where k: "k = (y, m, d, nu)" by (cases k)
  from assms u obtain tds where r: "row_cells a = Some tds"
    by (cases "row_cells a") (simp_all add: parseEntry_def k)
  let ?title = "if 2 \<le> length tds then extractTitle l (tds ! 1) else []"
  from assms u r have g: "\<not> isGermanTranslation ?title"
    by (auto simp: parseEntry_def k Let_def split: if_splits)
  from assms u r g have e: "e_index e = n + 1 \<and> e_title e = ?title \<and> e_year e = digitsValue y \<and>
      e_month e = m \<and> e_day e = d \<and> e_numac e = nu"
    by (auto simp: parseEntry_def k Let_def)
  from e show "e_index e = n + 1" by simp
  from e u show "urlKey (href a) = Some (entryKey e)" by (simp add: urlKey_def entryKey_def k)
  from e r show "e_title e = extractedTitle l a" by (simp add: extractedTitle_def)
  from e g show "\<not> isGermanTranslation (e_title e)" by simp
qed

lemma parseLoop_shape:
  "map e_index (parseLoop l acc links) =
     map e_index acc @ [length acc + 1 ..< length acc + 1 + length (filter (yields l) links)] \<and>
   map (\<lambda>e. Some (entryKey e)) (parseLoop l acc links) =
     map (\<lambda>e. Some (entryKey e)) acc @ map (\<lambda>a. urlKey (href a)) (filter (yields l) links) \<and>
   map e_title (parseLoop l acc links) =
     map e_title acc @ map (extractedTitle l) (filter (yields l) links)"
proof (induction links arbitrary: acc)
  case Nil
  then show ?case by simp
next
  case (Cons a links)
  show ?case
  proof (cases "parseEntry l (length acc) a")
    case None
    then have "\<not> yields l a" by (simp add: parseEntry_None_iff)
    with None Cons [of acc] show ?thesis by simp
  next
    case (Some e)
    then have y: "yields l a" using parseEntry_None_iff [of l "length acc" a] by simp
    note e = parseEntry_Some(1-3) [OF Some]
    have "[length acc + 1 ..< length acc + 1 + Suc (length (filter (yields l) links))] =
          (length acc + 1) # [length acc + 2 ..< length acc + 2 + length (filter (yields l) links)]"
      by (simp add: upt_rec)
    with Some y e Cons [of "acc @ [e]"] show ?thesis by simp
  qed
qed

lemma filter_yields:
  assumes "\<And>a. a \<in> set allLinks \<Longrightarrow> urlMatch (href a) \<noteq> None \<Longrightarrow>
             row_cells a \<noteq> None \<and> \<not> isGermanTranslation (extractedTitle l a)"
  shows "filter (yields l) (filter isJustelLink allLinks) =
         filter (\<lambda>a. urlMatch (href a) \<noteq> None) allLinks"
proof -
  have "filter (yields l) (filter isJustelLink allLinks) =
        filter (\<lambda>a. isJustelLink a \<and> yields l a) allLinks" by simp
  also have "\<dots> = filter (\<lambda>a. urlMatch (href a) \<noteq> None) allLinks"
  proof (rule filter_cong [OF refl])
    fix a assume a: "a \<in> set allLinks"
    show "(isJustelLink a \<and> yields l a) = (urlMatch (href a) \<noteq> None)"
    proof
      assume "isJustelLink a \<and> yields l a"
      then show "urlMatch (href a) \<noteq> None" by (simp add: yields_def)
    next
      assume u: "urlMatch (href a) \<noteq> None"
      with assms [OF a] have "yields l a" by (simp add: yields_def)
      with urlMatch_isJustelLink [OF u] show "isJustelLink a \<and> yields l a" by simp
    qed
  qed
  finally show ?thesis .
qed

text \<open>
  C9, as amended. Let every anchor of the page whose link decomposes stand inside a
  table row and not be a German-translation notice. Then \<open>parseYearIndex\<close> returns exactly
  one entry per anchor whose link decomposes (the anchors whose link does not decompose
  give none), in the order of the anchors, numbered 1 to N.
\<close>

theorem parseYearIndex_counts:
  assumes "\<And>a. a \<in> set allLinks \<Longrightarrow> urlMatch (href a) \<noteq> None \<Longrightarrow>
             row_cells a \<noteq> None \<and> \<not> isGermanTranslation (extractedTitle l a)"
  shows "length (parseYearIndex allLinks l) =
           length (filter (\<lambda>a. urlMatch (href a) \<noteq> None) allLinks) \<and>
         map e_index (parseYearIndex allLinks l) =
           [1 ..< Suc (length (filter (\<lambda>a. urlMatch (href a) \<noteq> None) allLinks))] \<and>
         map (\<lambda>e. Some (entryKey e)) (parseYearIndex allLinks l) =
           map (\<lambda>a. urlKey (href a)) (filter (\<lambda>a. urlMatch (href a) \<noteq> None) allLinks)"
proof -
  define good where "good = filter (yields l) (filter isJustelLink allLinks)"
  have g: "good = filter (\<lambda>a. urlMatch (href a) \<noteq> None) allLinks"
    unfolding good_def using assms by (rule filter_yields)
  note s = parseLoop_shape [of l "[]" "filter isJustelLink allLinks", folded good_def]
  from s have i: "map e_index (parseYearIndex allLinks l) = [1 ..< Suc (length good)]"
    by (simp add: parseYearIndex_def del: upt_Suc)
  from s have k: "map (\<lambda>e. Some (entryKey e)) (parseYearIndex allLinks l) =
           map (\<lambda>a. urlKey (href a)) good"
    by (simp add: parseYearIndex_def)
  from k have "length (map (\<lambda>e. Some (entryKey e)) (parseYearIndex allLinks l)) =
      length (map (\<lambda>a. urlKey (href a)) good)"
    by (rule arg_cong)
  then have "length (parseYearIndex allLinks l) = length good" by simp
  with i k show ?thesis unfolding g by (simp del: upt_Suc)
qed

text \<open>
  C8. Whatever the language selector, no entry returned by \<open>parseYearIndex\<close> has a title
  containing \<open>Traduction allemande\<close> or \<open>Duitse vertaling\<close>; every returned title is the
  title extracted for one of the anchors; and an anchor whose extracted title contains one
  of the two markers yields no entry.
\<close>

theorem parseYearIndex_no_german:
  "(e \<in> set (parseYearIndex allLinks l) \<longrightarrow>
      (\<exists>link \<in> set allLinks. e_title e = extractedTitle l link) \<and>
      \<not> includes_str (e_title e) (js ''Traduction allemande'') \<and>
      \<not> includes_str (e_title e) (js ''Duitse vertaling'')) \<and>
   (includes_str (extractedTitle l link) (js ''Traduction allemande'') \<or>
    includes_str (extractedTitle l link) (js ''Duitse vertaling'') \<longrightarrow>
      parseEntry l n link = None)"
proof -
  have t: "map e_title (parseYearIndex allLinks l) =
      map (extractedTitle l) (filter (yields l) (filter isJustelLink allLinks))"
    using parseLoop_shape [of l "[]" "filter isJustelLink allLinks"]
    by (simp add: parseYearIndex_def)
  have 1: "\<exists>link \<in> set allLinks. e_title e = extractedTitle l link \<and> yields l link"
    if "e \<in> set (parseYearIndex allLinks l)"
  proof -
    from that have "e_title e \<in> set (map e_title (parseYearIndex allLinks l))" by simp
    then show ?thesis unfolding t by auto
  qed
  have 2: "parseEntry l n link = None" if "isGermanTranslation (extractedTitle l link)"
    using that by (simp add: parseEntry_None_iff yields_def)
  show ?thesis
    using 1 2 by (auto simp: yields_def isGermanTranslation_def)
qed


lemmas index_eval = isJustelLink_def includes_str_def startsWith_def
  urlMatch_def re_justel_url_def extractedTitle_def extractTitle_def extractSource_def
  extractPublicationDate_def re_pubDate_def re_footnote_def pubMarker_def sourceMarker_def
  isGermanTranslation_def replaceWsRuns_def substring_def trim_def trimStart_def trimEnd_def
  digitsN_def digits1_def char1_def orElse_def isDigit_def digitsValue_def decimal.simps
  Let_def js_def

lemma example_links:
  "urlMatch (href link_law) = Some (js ''2020'', js ''01'', js ''12'', js ''2020010203'')"
  "urlMatch (href link_no_row) = Some (js ''2020'', js ''01'', js ''12'', js ''2020010203'')"
  "urlMatch (href link_broken) = None"
  "urlMatch (href link_german_fr) \<noteq> None"
  "urlMatch (href link_german_nl) \<noteq> None"
  by (simp_all add: link_law_def link_no_row_def link_broken_def link_german_fr_def
        link_german_nl_def index_eval)

lemma example_titles:
  "extractedTitle fr link_law = js ''12 JANVIER 2020. - Loi portant des dispositions diverses''"
  "extractedTitle nl link_german_fr = js ''Loi. - Traduction allemande''"
  "extractedTitle fr link_german_fr = js ''Loi. - Traduction allemande''"
  "extractedTitle fr link_german_nl = js ''Wet. - Duitse vertaling''"
  "extractedTitle nl link_german_nl = js ''Wet. - Duitse vertaling''"
  "extractedTitle fr link_no_row = []"
  by (simp_all add: link_law_def cell_law_def link_no_row_def link_german_fr_def
        link_german_nl_def index_eval isWhiteSpace_fast)

lemma example_notices:
  "\<not> includes_str (js ''12 JANVIER 2020. - Loi portant des dispositions diverses'') (js ''Traduction allemande'')"
  "\<not> includes_str (js ''12 JANVIER 2020. - Loi portant des dispositions diverses'') (js ''Duitse vertaling'')"
  "includes_str (js ''Loi. - Traduction allemande'') (js ''Traduction allemande'')"
  "includes_str (js ''Wet. - Duitse vertaling'') (js ''Duitse vertaling'')"
  "\<not> isGermanTranslation []"
  by (simp_all add: includes_str_def startsWith_def isGermanTranslation_def js_def)

lemma example_entry: "parseEntry fr 0 link_law = Some entry_law"
  by (simp add: parseEntry_def entry_law_def link_law_def cell_law_def index_eval isWhiteSpace_fast)


lemma example_yields:
  "yields fr link_law" "\<not> yields fr link_broken" "\<not> yields fr link_no_row"
  "\<not> yields fr link_german_fr" "\<not> yields fr link_german_nl"
  "row_cells link_law \<noteq> None" "row_cells link_no_row = None"
  by (simp_all add: yields_def example_links example_titles example_notices
        isGermanTranslation_def)
     (simp_all add: link_law_def link_no_row_def)

lemma example_index: "parseYearIndex [link_law, link_german_fr, link_german_nl] fr = [entry_law]"
proof -
  have j: "isJustelLink link_law" "isJustelLink link_german_fr" "isJustelLink link_german_nl"
    by (rule urlMatch_isJustelLink, simp add: example_links)+
  have g: "parseEntry fr (Suc 0) link_german_fr = None" "parseEntry fr (Suc 0) link_german_nl = None"
    by (simp_all add: parseEntry_None_iff example_yields)
  show ?thesis by (simp add: parseYearIndex_def j g example_entry)
qed

theorem parseYearIndex_no_german_witness:
  "entry_law \<in> set (parseYearIndex [link_law, link_german_fr, link_german_nl] fr) \<and>
   \<not> includes_str (e_title entry_law) (js ''Traduction allemande'') \<and>
   \<not> includes_str (e_title entry_law) (js ''Duitse vertaling'') \<and>
   includes_str (extractedTitle nl link_german_fr) (js ''Traduction allemande'') \<and>
   parseEntry nl 0 link_german_fr = None \<and>
   includes_str (extractedTitle fr link_german_nl) (js ''Duitse vertaling'') \<and>
   parseEntry fr 0 link_german_nl = None"
proof -
  have m: "entry_law \<in> set (parseYearIndex [link_law, link_german_fr, link_german_nl] fr)"
    by (simp add: example_index)
  have a: "includes_str (extractedTitle nl link_german_fr) (js ''Traduction allemande'')"
    by (simp add: example_titles example_notices)
  have b: "includes_str (extractedTitle fr link_german_nl) (js ''Duitse vertaling'')"
    by (simp add: example_titles example_notices)
  from m a b
    parseYearIndex_no_german [of entry_law "[link_law, link_german_fr, link_german_nl]" fr
      link_german_nl 0]
    parseYearIndex_no_german [of entry_law "[link_law, link_german_fr, link_german_nl]" nl
      link_german_fr 0]
  show ?thesis by simp
qed

theorem parseYearIndex_counts_witness:
  "urlMatch (href link_law) \<noteq> None \<and> row_cells link_law \<noteq> None \<and>
   \<not> isGermanTranslation (extractedTitle fr link_law) \<and>
   urlMatch (href link_broken) = None \<and>
   length (parseYearIndex [link_law, link_broken] fr) = 1 \<and>
   map e_index (parseYearIndex [link_law, link_broken] fr) = [1] \<and>
   map (\<lambda>e. Some (entryKey e)) (parseYearIndex [link_law, link_broken] fr) =
     [Some (2020, js ''01'', js ''12'', js ''2020010203'')]"
proof -
  have y: "urlMatch (href link_law) \<noteq> None \<and> row_cells link_law \<noteq> None \<and>
      \<not> isGermanTranslation (extractedTitle fr link_law)"
    using example_yields(1) by (simp add: yields_def)
  have b: "urlMatch (href link_broken) = None" by (simp add: example_links)
  have h: "\<And>a. a \<in> set [link_law, link_broken] \<Longrightarrow> urlMatch (href a) \<noteq> None \<Longrightarrow>
      row_cells a \<noteq> None \<and> \<not> isGermanTranslation (extractedTitle fr a)"
    using y b by auto
  have f: "filter (\<lambda>a. urlMatch (href a) \<noteq> None) [link_law, link_broken] = [link_law]"
    by (simp add: example_links)
  have k: "urlKey (href link_law) = Some (2020, js ''01'', js ''12'', js ''2020010203'')"
    by (simp add: urlKey_def example_links) (simp add: digitsValue_def js_def)
  from parseYearIndex_counts [of "[link_law, link_broken]" fr, OF h] y b
  show ?thesis unfolding f by (simp add: k)
qed

text \<open>
  C9 as stated fails: an anchor whose link decomposes and which is no German-translation
  notice, but which stands outside any table row, is skipped.
\<close>

theorem parseYearIndex_skips_rowless:
  "urlMatch (href link_no_row) \<noteq> None \<and>
   \<not> isGermanTranslation (extractedTitle fr link_no_row) \<and>
   parseYearIndex [link_no_row] fr = []"
proof -
  have j: "isJustelLink link_no_row"
    by (rule urlMatch_isJustelLink) (simp add: example_links)
  have "parseEntry fr 0 link_no_row = None"
    by (simp add: parseEntry_None_iff example_yields)
  with j show ?thesis
    by (simp add: parseYearIndex_def example_links example_titles example_notices)
qed

subsection \<open>The guards of the scanning loops\<close>

text \<open>
  Every pattern consumes at least one character: what a matcher returns as the rest is
  shorter than the string it was given, so the guards in \<open>gsub\<close> and \<open>articleMatches\<close>
  are always true.
\<close>

lemma strip_ci_length: "strip_ci p s = Some r \<Longrightarrow> length s = length p + length r"
proof (induction p arbitrary: s)
  case Nil
  then show ?case by simp
next
  case (Cons a p)
  then show ?case by (cases s) (auto split: if_splits)
qed

lemma strip_lit_length: "strip_lit p s = Some r \<Longrightarrow> length s = length p + length r"
  by (simp add: strip_lit_iff)

lemma char1_length: "char1 c s = Some r \<Longrightarrow> length s = Suc (length r)"
  by (simp add: char1_iff)

lemma dropWhile_Cons_length: "dropWhile P s = c # r \<Longrightarrow> length r < length s"
  using length_dropWhile_le [of P s] by simp

lemma upTo_length: "upTo x s = Some r \<Longrightarrow> length r < length s"
  by (auto simp: upTo_def split: list.splits dest: dropWhile_Cons_length)

lemma re_anchor_open_shorter: "re_anchor_open s = Some r \<Longrightarrow> length r < length s"
  by (auto simp: re_anchor_open_def split: Option.bind_splits
      dest!: strip_ci_length upTo_length)

lemma re_anchor_close_shorter: "re_anchor_close s = Some r \<Longrightarrow> length r < length s"
  by (auto simp: re_anchor_close_def js_def dest!: strip_ci_length)

lemma re_br_shorter: "re_br s = Some r \<Longrightarrow> length r < length s"
proof -
  assume "re_br s = Some r"
  then obtain s1 where 1: "strip_ci (js ''<BR'') s = Some s1" and
    2: "char1 62 (case char1 47 (dropWhile isWhiteSpace s1) of Some t \<Rightarrow> t
                   | None \<Rightarrow> dropWhile isWhiteSpace s1) = Some r"
    by (auto simp: re_br_def Let_def split: Option.bind_splits)
  have "length (dropWhile isWhiteSpace s1) \<le> length s1" by (rule length_dropWhile_le)
  moreover have "length (case char1 47 (dropWhile isWhiteSpace s1) of Some t \<Rightarrow> t
                   | None \<Rightarrow> dropWhile isWhiteSpace s1) \<le> length (dropWhile isWhiteSpace s1)"
    by (auto split: option.splits dest: char1_length)
  moreover have "length s1 \<le> length s" using strip_ci_length [OF 1] by simp
  ultimately show ?thesis using char1_length [OF 2] by simp
qed

lemma re_heading_shorter: "re_heading s = Some r \<Longrightarrow> length r < length s"
proof -
  assume "re_heading s = Some r"
  then obtain s1 s3 s4 where 1: "char1 60 s = Some s1" and
    3: "strip_ci (js ''h'') (case char1 47 s1 of Some t \<Rightarrow> t | None \<Rightarrow> s1) = Some s3" and
    4: "(case s3 of [] \<Rightarrow> None | c # t \<Rightarrow> if 49 \<le> c \<and> c \<le> 54 then Some t else None) = Some s4"
    and 5: "upTo 62 s4 = Some r"
    by (auto simp: re_heading_def Let_def split: Option.bind_splits)
  have "length (case char1 47 s1 of Some t \<Rightarrow> t | None \<Rightarrow> s1) \<le> length s1"
    by (auto split: option.splits dest: char1_length)
  moreover have "length s3 \<le> length (case char1 47 s1 of Some t \<Rightarrow> t | None \<Rightarrow> s1)"
    using strip_ci_length [OF 3] by simp
  moreover have "length s4 \<le> length s3" using 4 by (cases s3) (auto split: if_splits)
  ultimately show ?thesis using upTo_length [OF 5] char1_length [OF 1] by simp
qed

lemma re_tag_shorter: "re_tag s = Some r \<Longrightarrow> length r < length s"
  by (auto simp: re_tag_def split: Option.bind_splits if_splits dest!: char1_length upTo_length)

lemma entity_shorter: "strip_lit (c # e) s = Some r \<Longrightarrow> length r < length s"
  by (auto dest: strip_lit_length)

lemma re_numeric_entity_shorter: "re_numeric_entity s = Some (rep, r) \<Longrightarrow> length r < length s"
proof -
  assume "re_numeric_entity s = Some (rep, r)"
  then obtain s1 ds s2 where 1: "strip_lit (js ''&#'') s = Some s1" and
    2: "digits1 s1 = Some (ds, s2)" and 3: "char1 59 s2 = Some r"
    by (auto simp: re_numeric_entity_def split: Option.bind_splits)
  have "length s2 \<le> length s1" using digits1_Some [OF 2] by simp
  moreover have "length s1 \<le> length s" using strip_lit_length [OF 1] by simp
  ultimately show ?thesis using char1_length [OF 3] by simp
qed

lemma re_blank_lines_shorter: "re_blank_lines s = Some r \<Longrightarrow> length r < length s"
  using re_blank_lines_suffix [of s r] by (auto simp: neq_Nil_conv)

lemma re_articlePattern_shorter: "re_articlePattern s = Some (ref, r) \<Longrightarrow> length r < length s"
proof -
  assume "re_articlePattern s = Some (ref, r)"
  then obtain s1 s2 s3 s4 where 1: "strip_ci (js ''<A'') s = Some s1" and
    2: "spaces1 s1 = Some s2" and 3: "strip_ci (js ''NAME='Art.'') s2 = Some s3" and
    4: "char1 39 (dropWhile (\<lambda>c. c \<noteq> 39) s3) = Some s4" and 5: "upTo 62 s4 = Some r"
    by (auto simp: re_articlePattern_def Let_def split: Option.bind_splits if_splits)
  have "length s2 \<le> length s1" using 2 length_dropWhile_le [of isWhiteSpace s1]
    by (auto simp: spaces1_def split: if_splits)
  moreover have "length s1 \<le> length s" using strip_ci_length [OF 1] by simp
  moreover have "length s3 \<le> length s2" using strip_ci_length [OF 3] by simp
  moreover have "length s4 \<le> length s3"
    using char1_length [OF 4] length_dropWhile_le [of "\<lambda>c. c \<noteq> 39" s3] by simp
  ultimately show ?thesis using upTo_length [OF 5] by simp
qed

subsection \<open>Pipeline orchestrator\<close>

lemma fetch_404:
  "fst (rateLimitedFetch env_404 url w) = Inl (new_Error (js ''HTTP 404 for '' @ url))"
  by (simp add: rateLimitedFetch_def attempt_loop_3 do_fetch_def env_404_def attempt_try_def
        response_ok_def Let_def)
     (simp add: decimal.simps js_def)

lemma includes_404: "includes_str (error_to_string (new_Error (js ''HTTP 404 for '' @ url))) (js ''404'')"
proof -
  have "error_to_string (new_Error (js ''HTTP 404 for '' @ url)) =
      js ''Error: HTTP '' @ js ''404'' @ (js '' for '' @ url)"
    by (simp add: error_to_string_def new_Error_def js_def)
  then show ?thesis using includes_str_middle [of "js ''Error: HTTP ''" "js ''404''" "js '' for '' @ url"]
    by simp
qed

text \<open>
  C3. The claim asks that an entry whose Dutch page answers 404 on every attempt be counted
  as skipped and not as failed. The handler of \<open>runDutchContent\<close> increments \<open>failed\<close>
  before it looks at the error, and \<open>skipped\<close> as well when the error text contains
  \<open>404\<close>: on one entry, with every request answered 404, the stage ends with
  \<open>failed = 1\<close> and \<open>skipped = 1\<close>, whatever the page parser and the file system do.
\<close>

theorem runDutchContent_404_counted_failed:
  "failed (runDutchContent parseLawContent writeFileSync env_404 [entry_law] world_0) = 1 \<and>
   skipped (runDutchContent parseLawContent writeFileSync env_404 [entry_law] world_0) = 1 \<and>
   processed (runDutchContent parseLawContent writeFileSync env_404 [entry_law] world_0) = 0"
proof -
  let ?url = "BASE_URL @ js ''/eli/'' @ pathSegment nl @ js ''/'' @ decimal (e_year entry_law)
      @ js ''/'' @ e_month entry_law @ js ''/'' @ e_day entry_law @ js ''/'' @ e_numac entry_law
      @ js ''/justel''"
  obtain w where f: "rateLimitedFetch env_404 ?url world_0 =
      (Inl (new_Error (js ''HTTP 404 for '' @ ?url)), w)"
    using fetch_404 [of ?url world_0] by (cases "rateLimitedFetch env_404 ?url world_0") simp
  show ?thesis
    by (simp add: runDutchContent_def dutchStep_def fetchLawContent_def f dutchCatch_def
          includes_404 Let_def)
qed

subsection \<open>Record consolidator\<close>

lemma map_get_map_set: "map_get (map_set m k v) k' = (if k' = k then Some v else map_get m k')"
  by (induction m) auto

lemmas seed_eval = seed_long_def seed_short_def seed_tie_def seed_longer_def js_def
  dedupeProvisions_def dedupe_step_def normalizeWhitespace_def replaceWsRuns_def trim_def trimStart_def
  trimEnd_def isWhiteSpace_def truthy_def js_or_def Let_def

text \<open>
  C4. The claim asks that the kept record's title fall back to the discarded one's title
  whenever the kept one lacks a title. \<open>dedupeProvisions\<close> merges the title only in the
  branch where the incoming article replaces the stored one. On two articles with reference
  \<open>art1\<close>, the first with the longer content and no title, the second shorter and titled
  \<open>Article 1\<close>, the output is the first article unchanged: its title stays absent.
\<close>

theorem dedupe_title_not_restored:
  "dedupeProvisions [seed_long, seed_short] = [seed_long] \<and>
   \<not> truthy (title seed_long) \<and> truthy (title seed_short)"
  by (simp add: seed_eval)

text \<open>
  The entry of the map under a reference after the loop is \<open>storedFor\<close> of that reference,
  the map stays well formed, and so the output holds at most one article per reference:
  the stored one.
\<close>

lemma map_get_dedupe_step:
  "map_get (dedupe_step m p) r =
     (if trim (provision_ref p) = r
      then Some (case map_get m r of
                   None \<Rightarrow> p\<lparr>provision_ref := r\<rparr>
                 | Some e \<Rightarrow> if normLen e < normLen p
                            then p\<lparr>provision_ref := r, title := js_or (title p) (title e)\<rparr>
                            else e)
      else map_get m r)"
  by (simp add: dedupe_step_def Let_def map_get_map_set split: option.splits)

lemma map_get_dedupe_loop: "map_get (dedupe_loop m ps) r = storedFor r (map_get m r) ps"
  by (induction ps arbitrary: m) (simp_all add: map_get_dedupe_step)

lemma dedupe_loop_append: "dedupe_loop m (xs @ ys) = dedupe_loop (dedupe_loop m xs) ys"
  by (induction xs arbitrary: m) simp_all

lemma storedFor_append: "storedFor r st (xs @ ys) = storedFor r (storedFor r st xs) ys"
  by (induction xs arbitrary: st) simp_all

lemma storedFor_other:
  "(\<And>p. p \<in> set ps \<Longrightarrow> trim (provision_ref p) \<noteq> r) \<Longrightarrow> storedFor r st ps = st"
  by (induction ps arbitrary: st) simp_all

lemma storedFor_not_longer:
  "(\<And>p. p \<in> set ps \<Longrightarrow> trim (provision_ref p) = r \<Longrightarrow> normLen p \<le> normLen e)
     \<Longrightarrow> storedFor r (Some e) ps = Some e"
proof (induction ps)
  case Nil
  then show ?case by simp
next
  case (Cons p ps)
  have "storedFor r (Some e) ps = Some e" using Cons by simp
  moreover have "trim (provision_ref p) = r \<Longrightarrow> \<not> normLen e < normLen p"
    using Cons.prems [of p] by simp
  ultimately show ?case by simp
qed

lemma map_fst_map_set:
  "map fst (map_set m k v) = (if k \<in> set (map fst m) then map fst m else map fst m @ [k])"
proof (induction m)
  case Nil
  then show ?case by simp
next
  case (Cons kv m)
  obtain k' v' where kv: "kv = (k', v')" by (cases kv)
  show ?case
  proof (cases "k' = k")
    case True
    with kv show ?thesis by simp
  next
    case False
    with kv Cons show ?thesis by simp
  qed
qed

lemma refmap_ok_map_set:
  "refmap_ok m \<Longrightarrow> provision_ref v = k \<Longrightarrow> refmap_ok (map_set m k v)"
proof (induction m)
  case Nil
  then show ?case by (simp add: refmap_ok_def)
next
  case (Cons kv m)
  obtain k' v' where kv: "kv = (k', v')" by (cases kv)
  from Cons.prems have ok: "refmap_ok m" by (simp add: refmap_ok_def)
  have ih: "refmap_ok (map_set m k v)" using Cons.IH [OF ok Cons.prems(2)] .
  show ?case
  proof (cases "k' = k")
    case True
    with Cons.prems kv show ?thesis by (simp add: refmap_ok_def)
  next
    case False
    with Cons.prems kv ih show ?thesis by (simp add: refmap_ok_def map_fst_map_set)
  qed
qed

lemma refmap_ok_step: "refmap_ok m \<Longrightarrow> refmap_ok (dedupe_step m p)"
  by (simp add: dedupe_step_def Let_def refmap_ok_map_set split: option.splits)

lemma refmap_ok_loop: "refmap_ok m \<Longrightarrow> refmap_ok (dedupe_loop m ps)"
  by (induction ps arbitrary: m) (simp_all add: refmap_ok_step)

lemma map_get_None: "k \<notin> set (map fst m) \<Longrightarrow> map_get m k = None"
  by (induction m) auto

lemma values_for_ref:
  "refmap_ok m \<Longrightarrow>
     filter (\<lambda>q. provision_ref q = r) (map snd m) =
       (case map_get m r of None \<Rightarrow> [] | Some v \<Rightarrow> [v])"
proof (induction m)
  case Nil
  then show ?case by simp
next
  case (Cons kv m)
  obtain k v where kv: "kv = (k, v)" by (cases kv)
  from Cons.prems kv have ok: "refmap_ok m" and pv: "provision_ref v = k"
    and nk: "k \<notin> set (map fst m)" by (simp_all add: refmap_ok_def)
  note ih = Cons.IH [OF ok]
  show ?case
  proof (cases "k = r")
    case True
    with nk have "map_get m r = None" by (simp add: map_get_None)
    with ih True pv kv show ?thesis by simp
  next
    case False
    with ih pv kv show ?thesis by simp
  qed
qed

lemma output_for_ref:
  "filter (\<lambda>q. provision_ref q = r) (dedupeProvisions ps) =
     (case storedFor r None ps of None \<Rightarrow> [] | Some v \<Rightarrow> [v])"
proof -
  have "refmap_ok (dedupe_loop [] ps)" by (rule refmap_ok_loop) (simp add: refmap_ok_def)
  from values_for_ref [OF this, of r] show ?thesis
    by (simp add: dedupeProvisions_def map_get_dedupe_loop)
qed

lemma stored_after_first:
  assumes "\<And>p. p \<in> set pre \<Longrightarrow> trim (provision_ref p) \<noteq> trim (provision_ref a)"
    and "\<And>p. p \<in> set mid \<Longrightarrow> trim (provision_ref p) = trim (provision_ref a) \<Longrightarrow>
           normLen p \<le> normLen a"
  shows "storedFor (trim (provision_ref a)) None (pre @ a # mid) =
           Some (a\<lparr>provision_ref := trim (provision_ref a)\<rparr>)"
proof -
  let ?r = "trim (provision_ref a)"
  have 1: "storedFor ?r None pre = None" using assms(1) by (rule storedFor_other)
  have 2: "storedFor ?r (Some (a\<lparr>provision_ref := ?r\<rparr>)) mid = Some (a\<lparr>provision_ref := ?r\<rparr>)"
    using assms(2) by (intro storedFor_not_longer) simp
  show ?thesis by (simp add: storedFor_append 1 2)
qed

text \<open>
  C10. Let \<open>a\<close> be the first article of the input with its (trimmed) reference, and let
  no article of that reference between \<open>a\<close> and a later article \<open>b\<close> of the same reference
  have a longer whitespace-normalized content than \<open>a\<close>. Up to \<open>b\<close>, the output holds
  exactly one article of that reference, which is \<open>a\<close> with its title and content (and
  the reference trimmed). If the normalized content of \<open>b\<close> is not strictly longer than
  that of \<open>a\<close> (equal length included), \<open>b\<close> is merged away: the output is the one of the
  input without \<open>b\<close>, wherever \<open>b\<close> stands and whatever follows it. If it is strictly
  longer, and no article of that reference behind \<open>b\<close> is longer still, the output holds
  \<open>b\<close> in place of \<open>a\<close>, under the trimmed reference and with the title of \<open>a\<close> when its
  own is missing or empty.
\<close>

theorem dedupe_first_seen_kept_unless_longer:
  assumes "\<forall>p \<in> set pre. trim (provision_ref p) \<noteq> trim (provision_ref a)"
    and "\<forall>p \<in> set mid. trim (provision_ref p) = trim (provision_ref a) \<longrightarrow> normLen p \<le> normLen a"
  shows "filter (\<lambda>q. provision_ref q = trim (provision_ref a)) (dedupeProvisions (pre @ a # mid)) =
           [a\<lparr>provision_ref := trim (provision_ref a)\<rparr>] \<and>
         (trim (provision_ref b) = trim (provision_ref a) \<and> normLen b \<le> normLen a \<longrightarrow>
            dedupeProvisions (pre @ a # mid @ b # post) = dedupeProvisions (pre @ a # mid @ post)) \<and>
         (trim (provision_ref b) = trim (provision_ref a) \<and> normLen a < normLen b \<and>
          (\<forall>p \<in> set post. trim (provision_ref p) = trim (provision_ref a) \<longrightarrow>
                             normLen p \<le> normLen b) \<longrightarrow>
            filter (\<lambda>q. provision_ref q = trim (provision_ref a))
                (dedupeProvisions (pre @ a # mid @ b # post)) =
              [b\<lparr>provision_ref := trim (provision_ref a), title := js_or (title b) (title a)\<rparr>])"
proof -
  let ?r = "trim (provision_ref a)"
  let ?a = "a\<lparr>provision_ref := ?r\<rparr>"
  have first: "storedFor ?r None (pre @ a # mid) = Some ?a"
    using assms by (intro stored_after_first) auto
  have kept: "filter (\<lambda>q. provision_ref q = ?r) (dedupeProvisions (pre @ a # mid)) = [?a]"
    by (simp add: output_for_ref first)
  have merged: "dedupeProvisions (pre @ a # mid @ b # post) = dedupeProvisions (pre @ a # mid @ post)"
    if "trim (provision_ref b) = ?r" "normLen b \<le> normLen a"
  proof -
    let ?S = "dedupe_loop [] (pre @ a # mid)"
    have "map_get ?S ?r = Some ?a" using first by (simp add: map_get_dedupe_loop)
    then have "dedupe_step ?S b = ?S" using that by (simp add: dedupe_step_def Let_def)
    then have "dedupe_loop [] ((pre @ a # mid) @ b # post) = dedupe_loop [] ((pre @ a # mid) @ post)"
      by (simp only: dedupe_loop_append dedupe_loop.simps)
    then show ?thesis by (simp add: dedupeProvisions_def)
  qed
  have replaced: "filter (\<lambda>q. provision_ref q = ?r) (dedupeProvisions (pre @ a # mid @ b # post)) =
      [b\<lparr>provision_ref := ?r, title := js_or (title b) (title a)\<rparr>]"
    if "trim (provision_ref b) = ?r" "normLen a < normLen b"
      "\<forall>p \<in> set post. trim (provision_ref p) = ?r \<longrightarrow> normLen p \<le> normLen b"
  proof -
    let ?b = "b\<lparr>provision_ref := ?r, title := js_or (title b) (title a)\<rparr>"
    have "storedFor ?r (Some ?b) post = Some ?b"
      using that(3) by (intro storedFor_not_longer) simp
    moreover have "storedFor ?r None ((pre @ a # mid) @ b # post) =
        storedFor ?r (storedFor ?r None (pre @ a # mid)) (b # post)"
      by (rule storedFor_append)
    moreover have "storedFor ?r (Some ?a) (b # post) = storedFor ?r (Some ?b) post"
      using that(1,2) by simp
    ultimately have "storedFor ?r None ((pre @ a # mid) @ b # post) = Some ?b"
      by (simp only: first)
    then show ?thesis by (simp add: output_for_ref)
  qed
  from kept merged replaced show ?thesis by blast
qed

lemmas seed_eval2 = seed_eval seed_other_def

theorem dedupe_first_seen_kept_unless_longer_witness:
  "trim (provision_ref seed_other) \<noteq> trim (provision_ref seed_long) \<and>
   trim (provision_ref seed_tie) = trim (provision_ref seed_long) \<and>
   normLen seed_tie = normLen seed_long \<and>
   normLen seed_short \<le> normLen seed_long \<and>
   normLen seed_long < normLen seed_longer \<and>
   filter (\<lambda>q. provision_ref q = js ''art1'')
     (dedupeProvisions [seed_other, seed_long, seed_other, seed_tie, seed_short]) = [seed_long] \<and>
   dedupeProvisions [seed_other, seed_long, seed_other, seed_tie, seed_short, seed_tie, seed_longer] =
     dedupeProvisions [seed_other, seed_long, seed_other, seed_tie, seed_short, seed_longer] \<and>
   filter (\<lambda>q. provision_ref q = js ''art1'')
     (dedupeProvisions [seed_other, seed_long, seed_other, seed_tie, seed_short, seed_longer, seed_short]) =
     [seed_longer\<lparr>provision_ref := js ''art1'', title := None\<rparr>] \<and>
   dedupeProvisions [seed_long, seed_other, seed_longer] =
     [seed_longer\<lparr>provision_ref := js ''art1'', title := None\<rparr>, seed_other]"
proof -
  have r: "trim (provision_ref seed_other) \<noteq> trim (provision_ref seed_long)"
    "trim (provision_ref seed_tie) = trim (provision_ref seed_long)"
    "trim (provision_ref seed_short) = trim (provision_ref seed_long)"
    "trim (provision_ref seed_longer) = trim (provision_ref seed_long)"
    "trim (provision_ref seed_long) = js ''art1''"
    by (simp_all add: seed_eval2)
  have n: "normLen seed_tie = normLen seed_long" "normLen seed_short \<le> normLen seed_long"
    "normLen seed_long < normLen seed_longer" "normLen seed_short \<le> normLen seed_longer"
    by (simp_all add: seed_eval2)
  have t: "seed_long\<lparr>provision_ref := js ''art1''\<rparr> = seed_long"
    "js_or (title seed_longer) (title seed_long) = None"
    by (simp_all add: seed_eval2)
  have e: "dedupeProvisions [seed_long, seed_other, seed_longer] =
     [seed_longer\<lparr>provision_ref := js ''art1'', title := None\<rparr>, seed_other]"
    by (simp add: seed_eval2)
  have h1: "\<forall>p \<in> set [seed_other]. trim (provision_ref p) \<noteq> trim (provision_ref seed_long)"
    using r by simp
  have h2: "\<forall>p \<in> set [seed_other, seed_tie, seed_short].
      trim (provision_ref p) = trim (provision_ref seed_long) \<longrightarrow> normLen p \<le> normLen seed_long"
    using r n by simp
  note A = dedupe_first_seen_kept_unless_longer [OF h1 h2, of seed_tie "[seed_longer]"]
  note B = dedupe_first_seen_kept_unless_longer [OF h1 h2, of seed_longer "[seed_short]"]
  from A B r n show ?thesis by (simp add: t e)
qed


end
